theory Spec2Isabelle
  imports Main "HOL-Library.AList" "HOL-Library.Multiset"
begin

section \<open>Data model\<close>

text \<open>
  The collector's own structs (main.go, lines 21-32). Go strings are byte sequences; they
  are modelled as \<open>string\<close>, a list of 8-bit characters. The two fields of
  \<open>AccountConfig\<close> carry their JSON names, since \<open>AccountID\<close> already names a
  field of \<open>EC2Instance\<close>.
\<close>

record EC2Instance =
  AccountID :: string
  InstanceID :: string
  TagName :: string
  InstanceType :: string

record AccountConfig =
  account_id :: string
  role_arn :: string

text \<open>
  The part of the provider's response that \<open>getEC2Instances\<close> reads. In the SDK the
  identifier of an instance and the key and value of a tag are pointers to strings
  (\<open>None\<close> is the nil pointer); the instance type is a string-kinded value. The
  continuation token of the response is kept, although the program never reads it.
\<close>

record Tag =
  Tag_Key :: "string option"
  Tag_Value :: "string option"

record Instance =
  Instance_Id :: "string option"
  Instance_Type :: string
  Instance_Tags :: "Tag list"

record Reservation =
  Reservation_Instances :: "Instance list"

record DescribeInstancesOutput =
  Out_Reservations :: "Reservation list"
  Out_NextToken :: "string option"

record DescribeInstancesInput =
  In_NextToken :: "string option"
  In_MaxResults :: "int option"

text \<open>Dereferencing a nil pointer panics; a panic in any goroutine ends the process.\<close>

datatype panic = NilPointerDereference

text \<open>
  The log lines of the fetcher (lines 64, 80 and 110), by the account they name and the
  error or count they report.
\<close>

datatype log_entry =
  ConfigLoadFailed string string
  | DescribeFailed string string
  | FetchDone string nat

section \<open>The account fetcher\<close>

text \<open>
  What the provider does is taken from the environment. \<open>loadDefaultConfig a\<close> is
  the error, if any, that \<open>config.LoadDefaultConfig\<close> returns to the goroutine of
  account \<open>a\<close>. \<open>describeInstances a r qs q\<close> is the answer to a call of the
  operation \<open>DescribeInstances\<close> with the request \<open>q\<close>, made by that goroutine under
  role \<open>r\<close> after it has made the calls \<open>qs\<close>: what the call returns, and how many
  requests the SDK client sent for it. The client is built from the default
  configuration, whose retryer sends a throttled or failed request again within one call
  of the operation; how often is the SDK's affair, so the number is part of the answer.
  The answer may depend on the earlier calls: a second call may succeed where the first
  was throttled, and a call that carries a continuation token gets the next page.
\<close>

record call_result =
  Attempts :: nat
  Outcome :: "string + DescribeInstancesOutput"

record aws_env =
  loadDefaultConfig :: "string \<Rightarrow> string option"
  describeInstances ::
    "string \<Rightarrow> string \<Rightarrow> DescribeInstancesInput list \<Rightarrow> DescribeInstancesInput \<Rightarrow> call_result"

text \<open>
  The EC2 client of a goroutine (line 75), by what has gone through it: the calls of the
  operation, in order, and the number of requests sent. A call of \<open>DescribeInstances\<close>
  asks the provider, records the call and returns the provider's result.
\<close>

record client =
  client_calls :: "DescribeInstancesInput list"
  client_requests :: nat

definition newClient :: client where
  "newClient = \<lparr>client_calls = [], client_requests = 0\<rparr>"

definition DescribeInstances ::
  "aws_env \<Rightarrow> string \<Rightarrow> string \<Rightarrow> client \<Rightarrow> DescribeInstancesInput
     \<Rightarrow> (string + DescribeInstancesOutput) \<times> client" where
  "DescribeInstances aws accountID roleArn c q =
     (let answer = describeInstances aws accountID roleArn (client_calls c) q
      in (Outcome answer,
          c\<lparr>client_calls := client_calls c @ [q],
            client_requests := client_requests c + Attempts answer\<rparr>))"

text \<open>The request of line 78: \<open>&ec2.DescribeInstancesInput{}\<close>, every field zero.\<close>

definition emptyInput :: DescribeInstancesInput where
  "emptyInput = \<lparr>In_NextToken = None, In_MaxResults = None\<rparr>"

text \<open>Lines 93-99: the search for the Name tag, leaving at the first match.\<close>

fun findNameTag :: "Tag list \<Rightarrow> panic + string" where
  "findNameTag [] = Inr ''-''"
| "findNameTag (tag # tags) =
     (case Tag_Key tag of
        None \<Rightarrow> Inl NilPointerDereference
      | Some k \<Rightarrow>
          if k = ''Name''
          then (case Tag_Value tag of
                  None \<Rightarrow> Inl NilPointerDereference
                | Some v \<Rightarrow> Inr v)
          else findNameTag tags)"

text \<open>Lines 89-106: one pass of the inner loop body, from an instance to its record.\<close>

definition toRecord :: "string \<Rightarrow> Instance \<Rightarrow> panic + EC2Instance" where
  "toRecord accountID inst =
     (case Instance_Id inst of
        None \<Rightarrow> Inl NilPointerDereference
      | Some instanceID \<Rightarrow>
          (case findNameTag (Instance_Tags inst) of
             Inl p \<Rightarrow> Inl p
           | Inr tagName \<Rightarrow>
               Inr \<lparr>AccountID = accountID, InstanceID = instanceID,
                    TagName = tagName, InstanceType = Instance_Type inst\<rparr>))"

text \<open>Lines 88-107 and 87-108: the two loops, appending to the slice \<open>instances\<close>.\<close>

fun collectInstances :: "string \<Rightarrow> Instance list \<Rightarrow> EC2Instance list \<Rightarrow> panic + EC2Instance list" where
  "collectInstances accountID [] instances = Inr instances"
| "collectInstances accountID (inst # rest) instances =
     (case toRecord accountID inst of
        Inl p \<Rightarrow> Inl p
      | Inr r \<Rightarrow> collectInstances accountID rest (instances @ [r]))"

fun collectReservations :: "string \<Rightarrow> Reservation list \<Rightarrow> EC2Instance list \<Rightarrow> panic + EC2Instance list" where
  "collectReservations accountID [] instances = Inr instances"
| "collectReservations accountID (reservation # rest) instances =
     (case collectInstances accountID (Reservation_Instances reservation) instances of
        Inl p \<Rightarrow> Inl p
      | Inr instances' \<Rightarrow> collectReservations accountID rest instances')"

text \<open>
  What one run of \<open>getEC2Instances\<close> does: the lines it logs, the client it leaves
  behind (none when it returned before line 75), and the slice it sends on the results
  channel, or the panic that ends it.
\<close>

record fetch_out =
  fetch_log :: "log_entry list"
  fetch_client :: "client option"
  fetch_sent :: "panic + EC2Instance list"

definition getEC2Instances :: "aws_env \<Rightarrow> string \<Rightarrow> string \<Rightarrow> fetch_out" where
  "getEC2Instances aws accountID roleArn =
     (case loadDefaultConfig aws accountID of
        Some err \<Rightarrow>
          \<lparr>fetch_log = [ConfigLoadFailed accountID err], fetch_client = None,
           fetch_sent = Inr []\<rparr>
      | None \<Rightarrow>
          (case DescribeInstances aws accountID roleArn newClient emptyInput of
             (Inl err, client) \<Rightarrow>
               \<lparr>fetch_log = [DescribeFailed accountID err], fetch_client = Some client,
                fetch_sent = Inr []\<rparr>
           | (Inr result, client) \<Rightarrow>
               (case collectReservations accountID (Out_Reservations result) [] of
                  Inl p \<Rightarrow>
                    \<lparr>fetch_log = [], fetch_client = Some client, fetch_sent = Inl p\<rparr>
                | Inr instances \<Rightarrow>
                    \<lparr>fetch_log = [FetchDone accountID (length instances)],
                     fetch_client = Some client, fetch_sent = Inr instances\<rparr>)))"

text \<open>
  The calls of the operation that a run of the fetcher has made, and the requests that
  the SDK client has sent for them.
\<close>

definition fetch_queries :: "fetch_out \<Rightarrow> DescribeInstancesInput list" where
  "fetch_queries out = (case fetch_client out of None \<Rightarrow> [] | Some c \<Rightarrow> client_calls c)"

definition fetch_requests :: "fetch_out \<Rightarrow> nat" where
  "fetch_requests out = (case fetch_client out of None \<Rightarrow> 0 | Some c \<Rightarrow> client_requests c)"

text \<open>
  What the provider returns to the first call of a goroutine when that call carries the
  request of line 78.
\<close>

definition firstAnswer :: "aws_env \<Rightarrow> string \<Rightarrow> string \<Rightarrow> string + DescribeInstancesOutput" where
  "firstAnswer aws accountID roleArn = Outcome (describeInstances aws accountID roleArn [] emptyInput)"

text \<open>The instances of a response, reservation by reservation, in the order of the loops.\<close>

definition responseInstances :: "DescribeInstancesOutput \<Rightarrow> Instance list" where
  "responseInstances result = concat (map Reservation_Instances (Out_Reservations result))"

text \<open>
  The instances that reach the conversion loops in the goroutine of an account: those of
  the response when both calls succeed, none otherwise.
\<close>

definition fetchedInstances :: "aws_env \<Rightarrow> string \<Rightarrow> string \<Rightarrow> Instance list" where
  "fetchedInstances aws accountID roleArn =
     (case loadDefaultConfig aws accountID of
        Some err \<Rightarrow> []
      | None \<Rightarrow>
          (case firstAnswer aws accountID roleArn of
             Inl err \<Rightarrow> []
           | Inr result \<Rightarrow> responseInstances result))"

text \<open>The records that the goroutine of an account sends; none when it panics.\<close>

definition sentRecords :: "aws_env \<Rightarrow> string \<Rightarrow> string \<Rightarrow> EC2Instance list" where
  "sentRecords aws accountID roleArn =
     (case fetch_sent (getEC2Instances aws accountID roleArn) of
        Inl p \<Rightarrow> []
      | Inr instances \<Rightarrow> instances)"

text \<open>
  The specification's wording of the tag rule: the value of the first tag whose key is
  exactly \<open>Name\<close>, the dash when there is none. The result is the pointer stored in that
  tag, so it is \<open>None\<close> when the tag's value is nil.
\<close>

definition firstNameTagValue :: "Tag list \<Rightarrow> string option" where
  "firstNameTagValue tags =
     (case find (\<lambda>t. Tag_Key t = Some ''Name'') tags of
        None \<Rightarrow> Some ''-''
      | Some t \<Rightarrow> Tag_Value t)"

text \<open>
  The precondition as the claim words it: every instance has an identifier, and every
  tag has a key and a value.
\<close>

definition allPointersSet :: "Instance list \<Rightarrow> bool" where
  "allPointersSet insts =
     list_all (\<lambda>i. Instance_Id i \<noteq> None \<and>
        list_all (\<lambda>t. Tag_Key t \<noteq> None \<and> Tag_Value t \<noteq> None) (Instance_Tags i)) insts"

text \<open>
  The pointers that the search for the Name tag reads: the keys of the tags before the
  first tag with the key \<open>Name\<close>, and the value of that tag.
\<close>

definition scannedTagsSet :: "Tag list \<Rightarrow> bool" where
  "scannedTagsSet tags =
     (list_all (\<lambda>t. Tag_Key t \<noteq> None) (takeWhile (\<lambda>t. Tag_Key t \<noteq> Some ''Name'') tags) \<and>
      (case dropWhile (\<lambda>t. Tag_Key t \<noteq> Some ''Name'') tags of
         [] \<Rightarrow> True
       | t # rest \<Rightarrow> Tag_Value t \<noteq> None))"

definition readPointersSet :: "Instance list \<Rightarrow> bool" where
  "readPointersSet insts =
     list_all (\<lambda>i. Instance_Id i \<noteq> None \<and> scannedTagsSet (Instance_Tags i)) insts"

section \<open>The config loader\<close>

text \<open>
  \<open>os.ReadFile\<close> and \<open>json.Unmarshal\<close> are library calls; what they return for a
  file name and for the bytes read is taken from the environment (\<open>Inl\<close> carries the
  error text). The Go map from account ID to role ARN is an association list with
  distinct keys; the order of its entries means nothing, see \<open>fetchCalls\<close> below.
\<close>

datatype load_error = ReadFailed string | ParseFailed string

text \<open>Lines 49-52: the loop that stores each entry's role under its account ID.\<close>

fun accountsLoop :: "AccountConfig list \<Rightarrow> (string \<times> string) list \<Rightarrow> (string \<times> string) list" where
  "accountsLoop [] accounts = accounts"
| "accountsLoop (acc # rest) accounts =
     accountsLoop rest (AList.update (account_id acc) (role_arn acc) accounts)"

definition loadAccountsFromFile ::
  "(string \<Rightarrow> string + string) \<Rightarrow> (string \<Rightarrow> string + AccountConfig list) \<Rightarrow> string
     \<Rightarrow> load_error + (string \<times> string) list" where
  "loadAccountsFromFile readFile unmarshal filename =
     (case readFile filename of
        Inl err \<Rightarrow> Inl (ReadFailed err)
      | Inr data \<Rightarrow>
          (case unmarshal data of
             Inl err \<Rightarrow> Inl (ParseFailed err)
           | Inr accountConfigs \<Rightarrow> Inr (accountsLoop accountConfigs [])))"

text \<open>
  The specification's wording of last-wins: the role of the last entry of the array that
  carries the account ID.
\<close>

definition lastRoleFor :: "AccountConfig list \<Rightarrow> string \<Rightarrow> string option" where
  "lastRoleFor cfgs a =
     (case filter (\<lambda>c. account_id c = a) cfgs of
        [] \<Rightarrow> None
      | c # cs \<Rightarrow> Some (role_arn (last (c # cs))))"

section \<open>The CSV writer\<close>

text \<open>
  \<open>writeCSV\<close> hands each row to \<open>Write\<close> of Go's \<open>encoding/csv\<close> writer, with the
  writer's defaults: the delimiter is the comma and \<open>UseCRLF\<close> is off. The functions
  below follow that library: a field is quoted when it is backslash-dot, contains the
  delimiter, a quote, a carriage return or a line feed, or starts with a rune that
  \<open>unicode.IsSpace\<close> accepts; inside the quotes a quote is doubled and every other
  byte is copied; fields are joined by commas and the row ends with a line feed.
\<close>

abbreviation (input) comma :: char where "comma \<equiv> CHR '',''"
abbreviation (input) dquote :: char where "dquote \<equiv> CHR 0x22"
abbreviation (input) LF :: char where "LF \<equiv> CHR 0x0A"
abbreviation (input) CR :: char where "CR \<equiv> CHR 0x0D"

definition isSpecial :: "char \<Rightarrow> bool" where
  "isSpecial c = (c = LF \<or> c = CR \<or> c = dquote \<or> c = comma)"

text \<open>
  Whether the first rune of the UTF-8 bytes is white space: U+0009 to U+000D, U+0020,
  U+0085, U+00A0, U+1680, U+2000 to U+200A, U+2028, U+2029, U+202F, U+205F, U+3000.
\<close>

definition leadingSpace :: "string \<Rightarrow> bool" where
  "leadingSpace field =
     (take 1 field \<in> set [[CHR 0x09], [CHR 0x0A], [CHR 0x0B], [CHR 0x0C], [CHR 0x0D], [CHR 0x20]]
      \<or> take 2 field \<in> set [[CHR 0xC2, CHR 0x85], [CHR 0xC2, CHR 0xA0]]
      \<or> take 3 field \<in> set
           ([[CHR 0xE1, CHR 0x9A, CHR 0x80], [CHR 0xE2, CHR 0x80, CHR 0xA8],
             [CHR 0xE2, CHR 0x80, CHR 0xA9], [CHR 0xE2, CHR 0x80, CHR 0xAF],
             [CHR 0xE2, CHR 0x81, CHR 0x9F], [CHR 0xE3, CHR 0x80, CHR 0x80]]
            @ map (\<lambda>b. [CHR 0xE2, CHR 0x80, char_of b]) [128 ..< 139 :: nat]))"

definition fieldNeedsQuotes :: "string \<Rightarrow> bool" where
  "fieldNeedsQuotes field =
     (if field = [] then False
      else if field = [CHR 0x5C, CHR ''.''] then True
      else if list_ex isSpecial field then True
      else leadingSpace field)"

fun escapeQuoted :: "string \<Rightarrow> string" where
  "escapeQuoted [] = []"
| "escapeQuoted (c # cs) = (if c = dquote then [dquote, dquote] else [c]) @ escapeQuoted cs"

definition writeField :: "string \<Rightarrow> string" where
  "writeField field =
     (if \<not> fieldNeedsQuotes field then field
      else dquote # escapeQuoted field @ [dquote])"

text \<open>The loop of \<open>Write\<close> over the fields: a comma before every field but the first.\<close>

fun writeFields :: "nat \<Rightarrow> string list \<Rightarrow> string" where
  "writeFields n [] = []"
| "writeFields n (field # rest) =
     (if n > 0 then [comma] else []) @ writeField field @ writeFields (Suc n) rest"

definition csvWrite :: "string list \<Rightarrow> string" where
  "csvWrite row = writeFields 0 row @ [LF]"

text \<open>
  \<open>writeCSV\<close> (lines 115-147). The file system is taken from the environment:
  \<open>createError name\<close> is the error of \<open>os.Create\<close>, if any; \<open>writeError n\<close> is the
  error that the \<open>n\<close>-th call of \<open>Write\<close> returns, if any, the header being call 0;
  and \<open>fileAccepts\<close> is the number of bytes that the file takes before a write to it
  fails, \<open>None\<close> when it takes them all. The writer buffers what it is handed, so a call
  of \<open>Write\<close> can return nil although nothing has reached the file yet. The deferred
  \<open>Flush\<close> and \<open>Close\<close> (lines 121 and 125) run on every return after the file was
  created; their errors are not read, and neither is the writer's \<open>Error\<close>. So the
  function returns its error value, nil (\<open>None\<close>) included, independently of what the
  file ends up holding: the first bytes of what was handed to the writer, as many as the
  file took.
\<close>

datatype csv_error = CreateFailed string | HeaderWriteFailed string | DataWriteFailed string

definition csvHeader :: "string list" where
  "csvHeader = [''Account ID'', ''Instance ID'', ''Tag Name'', ''Instance Type'']"

definition recordFields :: "EC2Instance \<Rightarrow> string list" where
  "recordFields instance = [AccountID instance, InstanceID instance, TagName instance, InstanceType instance]"

text \<open>What the file holds of the bytes handed to the writer.\<close>

definition stored :: "nat option \<Rightarrow> string \<Rightarrow> string" where
  "stored accepts handed = (case accepts of None \<Rightarrow> handed | Some k \<Rightarrow> take k handed)"

text \<open>
  Lines 134-144: the loop over the records, with the number of the next call of
  \<open>Write\<close> and the bytes handed to the writer so far. It returns the error of the loop,
  if any, and the bytes handed over, those of a failing call included.
\<close>

fun writeRows ::
  "(nat \<Rightarrow> string option) \<Rightarrow> nat \<Rightarrow> EC2Instance list \<Rightarrow> string \<Rightarrow> csv_error option \<times> string" where
  "writeRows writeError n [] handed = (None, handed)"
| "writeRows writeError n (instance # rest) handed =
     (case writeError n of
        Some err \<Rightarrow> (Some (DataWriteFailed err), handed @ csvWrite (recordFields instance))
      | None \<Rightarrow> writeRows writeError (Suc n) rest (handed @ csvWrite (recordFields instance)))"

text \<open>
  The error that \<open>writeCSV\<close> returns, and the file as it is after the call: none when
  it could not be created.
\<close>

record written =
  w_error :: "csv_error option"
  w_file :: "string option"

definition writeCSV ::
  "(string \<Rightarrow> string option) \<Rightarrow> (nat \<Rightarrow> string option) \<Rightarrow> nat option \<Rightarrow> string
     \<Rightarrow> EC2Instance list \<Rightarrow> written" where
  "writeCSV createError writeError fileAccepts filename instances =
     (case createError filename of
        Some err \<Rightarrow> \<lparr>w_error = Some (CreateFailed err), w_file = None\<rparr>
      | None \<Rightarrow>
          (case writeError 0 of
             Some err \<Rightarrow>
               \<lparr>w_error = Some (HeaderWriteFailed err),
                w_file = Some (stored fileAccepts (csvWrite csvHeader))\<rparr>
           | None \<Rightarrow>
               (case writeRows writeError 1 instances (csvWrite csvHeader) of
                  (err, handed) \<Rightarrow>
                    \<lparr>w_error = err, w_file = Some (stored fileAccepts handed)\<rparr>)))"

text \<open>
  The bytes that the writer is handed for a list of records when no call of \<open>Write\<close>
  fails: the header row and one row per record, in the order of the list.
\<close>

definition csvStream :: "EC2Instance list \<Rightarrow> string" where
  "csvStream instances = concat (map csvWrite (csvHeader # map recordFields instances))"

section \<open>Reading a CSV file back\<close>

text \<open>
  Modelled from the spec: the reader that parses the generated file back into records.
  The program has none; the specification's round trip needs one. It is a reader for the
  standard quoting rules: a field that opens with a quote runs to the closing quote, a
  doubled quote inside standing for one quote and commas, carriage returns and line
  feeds inside being data, kept byte for byte; any other field runs to the next comma or
  line feed; a line feed ends the row. The field under construction and the row under
  construction are kept reversed.
\<close>

datatype pmode = FieldStart | Bare | Quoted | QuoteSeen

fun parseCSV ::
  "pmode \<Rightarrow> string \<Rightarrow> string list \<Rightarrow> string list list \<Rightarrow> string \<Rightarrow> string list list option" where
  "parseCSV m fld row rows [] =
     (case m of
        FieldStart \<Rightarrow> if row = [] then Some (rev rows) else Some (rev (rev ([] # row) # rows))
      | Bare \<Rightarrow> Some (rev (rev (rev fld # row) # rows))
      | QuoteSeen \<Rightarrow> Some (rev (rev (rev fld # row) # rows))
      | Quoted \<Rightarrow> None)"
| "parseCSV m fld row rows (c # cs) =
     (case m of
        FieldStart \<Rightarrow>
          if c = dquote then parseCSV Quoted [] row rows cs
          else if c = comma then parseCSV FieldStart [] ([] # row) rows cs
          else if c = LF then parseCSV FieldStart [] [] (rev ([] # row) # rows) cs
          else parseCSV Bare [c] row rows cs
      | Bare \<Rightarrow>
          if c = comma then parseCSV FieldStart [] (rev fld # row) rows cs
          else if c = LF then parseCSV FieldStart [] [] (rev (rev fld # row) # rows) cs
          else if c = dquote then None
          else parseCSV Bare (c # fld) row rows cs
      | Quoted \<Rightarrow>
          if c = dquote then parseCSV QuoteSeen fld row rows cs
          else parseCSV Quoted (c # fld) row rows cs
      | QuoteSeen \<Rightarrow>
          if c = dquote then parseCSV Quoted (dquote # fld) row rows cs
          else if c = comma then parseCSV FieldStart [] (rev fld # row) rows cs
          else if c = LF then parseCSV FieldStart [] [] (rev (rev fld # row) # rows) cs
          else None)"

definition csvRows :: "string \<Rightarrow> string list list option" where
  "csvRows content = parseCSV FieldStart [] [] [] content"

fun rowRecord :: "string list \<Rightarrow> EC2Instance option" where
  "rowRecord [a, i, t, ty] =
     Some \<lparr>AccountID = a, InstanceID = i, TagName = t, InstanceType = ty\<rparr>"
| "rowRecord _ = None"

fun rowsRecords :: "string list list \<Rightarrow> EC2Instance list option" where
  "rowsRecords [] = Some []"
| "rowsRecords (row # rows) =
     (case rowRecord row of
        None \<Rightarrow> None
      | Some r \<Rightarrow> (case rowsRecords rows of None \<Rightarrow> None | Some rs \<Rightarrow> Some (r # rs)))"

definition readCSV :: "string \<Rightarrow> EC2Instance list option" where
  "readCSV content =
     (case csvRows content of
        None \<Rightarrow> None
      | Some [] \<Rightarrow> None
      | Some (h # rows) \<Rightarrow> if h = csvHeader then rowsRecords rows else None)"

section \<open>The file name\<close>

text \<open>
  A reading of the local wall clock, broken down as \<open>Format\<close> sees it, and the layout
  \<open>20060102_150405\<close>: the year on four digits, the other fields on two, zero-padded.
\<close>

record civil_time =
  Year :: nat
  Month :: nat
  Day :: nat
  Hour :: nat
  Minute :: nat
  Second :: nat

definition digitChars :: string where
  "digitChars = ''0123456789''"

fun decimal :: "nat \<Rightarrow> string" where
  "decimal n =
     (if n < 10 then [digitChars ! n]
      else decimal (n div 10) @ [digitChars ! (n mod 10)])"

declare decimal.simps [simp del]

definition appendInt :: "nat \<Rightarrow> nat \<Rightarrow> string" where
  "appendInt x width = replicate (width - length (decimal x)) CHR ''0'' @ decimal x"

definition formatStamp :: "civil_time \<Rightarrow> string" where
  "formatStamp t =
     appendInt (Year t) 4 @ appendInt (Month t) 2 @ appendInt (Day t) 2 @ ''_'' @
     appendInt (Hour t) 2 @ appendInt (Minute t) 2 @ appendInt (Second t) 2"

definition validTime :: "civil_time \<Rightarrow> bool" where
  "validTime t =
     (Year t \<le> 9999 \<and> 1 \<le> Month t \<and> Month t \<le> 12 \<and> 1 \<le> Day t \<and> Day t \<le> 31 \<and>
      Hour t \<le> 23 \<and> Minute t \<le> 59 \<and> Second t \<le> 59)"

section \<open>The console table\<close>

text \<open>
  The console output of lines 189-207, line by line. The lines that \<open>Printf\<close> lays out
  in columns are kept as their four arguments, and the lines with fixed Korean text as
  constructors; the summary line carries the count it prints.
\<close>

datatype console_line =
  Text string
  | TableRow string string string string
  | NoInstances
  | Summary nat
  | Saved string

definition separator :: string where
  "separator = replicate 95 CHR ''=''"

definition consoleTable :: "EC2Instance list \<Rightarrow> console_line list" where
  "consoleTable allInstances =
     [Text [], Text separator,
      TableRow ''Account ID'' ''Instance ID'' ''Tag Name'' ''Instance Type'',
      Text separator]
     @ (if length allInstances = 0 then [NoInstances]
        else map (\<lambda>instance. TableRow (AccountID instance) (InstanceID instance)
                    (TagName instance) (InstanceType instance)) allInstances)
     @ [Text separator, Summary (length allInstances)]"

section \<open>The coordinator\<close>

text \<open>
  Everything outside the program that a run depends on. Go fixes neither the order in
  which a map is ranged over nor the order in which goroutines finish, so the order in
  which the accounts' slices reach the results channel is some arrangement of the map's
  entries, chosen by the run. The environment gives that choice as insertion positions
  (\<open>completion\<close>): every position list yields an arrangement of the entries, each entry
  once. The wall clock maps an instant, counted from the start of the process (instant
  0), to the local time read at that instant; \<open>saveInstant\<close> is the instant at which
  line 210 runs.
\<close>

record env =
  args :: "string list"
  readFile :: "string \<Rightarrow> string + string"
  unmarshal :: "string \<Rightarrow> string + AccountConfig list"
  aws :: aws_env
  completion :: "nat list"
  wallClock :: "nat \<Rightarrow> civil_time"
  saveInstant :: nat
  createError :: "string \<Rightarrow> string option"
  writeError :: "nat \<Rightarrow> string option"
  fileAccepts :: "nat option"

fun insertAt :: "nat \<Rightarrow> 'a \<Rightarrow> 'a list \<Rightarrow> 'a list" where
  "insertAt 0 x ys = x # ys"
| "insertAt (Suc n) x [] = [x]"
| "insertAt (Suc n) x (y # ys) = y # insertAt n x ys"

fun arrange :: "nat list \<Rightarrow> 'a list \<Rightarrow> 'a list" where
  "arrange ps [] = []"
| "arrange [] (x # xs) = x # arrange [] xs"
| "arrange (p # ps) (x # xs) = insertAt p x (arrange ps xs)"

text \<open>
  Lines 173-176: one call of \<open>getEC2Instances\<close> per entry of the map, listed in the
  order in which their slices arrive on the channel.
\<close>

definition fetchCalls :: "env \<Rightarrow> (string \<times> string) list \<Rightarrow> (string \<times> string) list" where
  "fetchCalls e accounts = arrange (completion e) accounts"

text \<open>
  Lines 183-186: draining the channel into \<open>allInstances\<close>. A goroutine that panicked
  has ended the process instead.
\<close>

fun gather :: "fetch_out list \<Rightarrow> EC2Instance list \<Rightarrow> panic + EC2Instance list" where
  "gather [] allInstances = Inr allInstances"
| "gather (out # outs) allInstances =
     (case fetch_sent out of
        Inl p \<Rightarrow> Inl p
      | Inr instances \<Rightarrow> gather outs (allInstances @ instances))"

text \<open>Lines 210-211: the name of the output file.\<close>

definition outputFile :: "env \<Rightarrow> string" where
  "outputFile e = ''ec2_instances_'' @ formatStamp (wallClock e (saveInstant e)) @ ''.csv''"

text \<open>
  A run of \<open>main\<close>. It ends with the usage message, with the fatal error of the config
  loader, with a panic of a goroutine, or it reaches the report: the calls of the
  fetcher, the merged records, the console lines, the name of the output file, the error
  that \<open>writeCSV\<close> returned (an error there is fatal, after the table has been
  printed; on nil the run prints that the file has been saved and ends with status 0)
  and the file as it is at the end.
  Of a run ended by a panic nothing else is described: what the other goroutines still
  do before the process is gone depends on the scheduler.
\<close>

record report =
  rep_calls :: "(string \<times> string) list"
  rep_fetches :: "fetch_out list"
  rep_records :: "EC2Instance list"
  rep_console :: "console_line list"
  rep_file :: string
  rep_written :: "csv_error option"
  rep_content :: "string option"

datatype outcome = UsageExit | LoadFatal load_error | Crashed panic | Ran report

definition main :: "env \<Rightarrow> outcome" where
  "main e =
     (if length (args e) < 2 then UsageExit
      else
        (case loadAccountsFromFile (readFile e) (unmarshal e) (args e ! 1) of
           Inl err \<Rightarrow> LoadFatal err
         | Inr accounts \<Rightarrow>
             (let calls = fetchCalls e accounts;
                  outs = map (\<lambda>(accountID, roleArn). getEC2Instances (aws e) accountID roleArn) calls
              in case gather outs [] of
                   Inl p \<Rightarrow> Crashed p
                 | Inr allInstances \<Rightarrow>
                     (let w = writeCSV (createError e) (writeError e) (fileAccepts e)
                                (outputFile e) allInstances
                      in Ran \<lparr>rep_calls = calls, rep_fetches = outs,
                              rep_records = allInstances,
                              rep_console = consoleTable allInstances
                                @ (case w_error w of
                                     Some err \<Rightarrow> []
                                   | None \<Rightarrow> [Saved (outputFile e)]),
                              rep_file = outputFile e,
                              rep_written = w_error w,
                              rep_content = w_file w\<rparr>))))"

text \<open>
  A run succeeds when it reaches the end of \<open>main\<close>: \<open>writeCSV\<close> has returned nil.
\<close>

definition succeeded :: "outcome \<Rightarrow> bool" where
  "succeeded out = (case out of Ran rep \<Rightarrow> rep_written rep = None | _ \<Rightarrow> False)"

text \<open>The report of a run that reached it.\<close>

definition theReport :: "outcome \<Rightarrow> report option" where
  "theReport out = (case out of Ran rep \<Rightarrow> Some rep | _ \<Rightarrow> None)"

section \<open>A sample run\<close>

text \<open>
  Five config entries for four accounts: account 111 appears twice, the inventory query
  of account 222 fails, and the configuration of account 444 cannot be loaded. The first
  instance of account 111 has a tag whose value pointer is nil, a tag with the key
  \<open>name\<close> in lower case, two tags with the key \<open>Name\<close>, and a last tag whose key
  pointer is nil; the response announces a second page, which a call with the
  continuation token would get. The first call of account 222 is throttled: the SDK
  client sends the request three times and returns the error; a second call would be
  answered.
\<close>

definition exTags :: "Tag list" where
  "exTags =
     [\<lparr>Tag_Key = Some ''Env'', Tag_Value = None\<rparr>,
      \<lparr>Tag_Key = Some ''name'', Tag_Value = Some ''lower''\<rparr>,
      \<lparr>Tag_Key = Some ''Name'', Tag_Value = Some ''web1''\<rparr>,
      \<lparr>Tag_Key = Some ''Name'', Tag_Value = Some ''web2''\<rparr>,
      \<lparr>Tag_Key = None, Tag_Value = Some ''late''\<rparr>]"

definition exOutput1 :: DescribeInstancesOutput where
  "exOutput1 =
     \<lparr>Out_Reservations =
        [\<lparr>Reservation_Instances =
            [\<lparr>Instance_Id = Some ''i-abc'', Instance_Type = ''t3.micro'',
              Instance_Tags = exTags\<rparr>]\<rparr>,
         \<lparr>Reservation_Instances =
            [\<lparr>Instance_Id = Some ''i-def'', Instance_Type = ''t3.small'',
              Instance_Tags = []\<rparr>]\<rparr>],
      Out_NextToken = Some ''page-2''\<rparr>"

definition exOutput3 :: DescribeInstancesOutput where
  "exOutput3 =
     \<lparr>Out_Reservations =
        [\<lparr>Reservation_Instances =
            [\<lparr>Instance_Id = Some ''i-9'', Instance_Type = ''r5.large'',
              Instance_Tags =
                [\<lparr>Tag_Key = Some ''Name'',
                  Tag_Value = Some (''db, '' @ [dquote] @ ''main'' @ [dquote, CR, LF])\<rparr>]\<rparr>]\<rparr>],
      Out_NextToken = None\<rparr>"

definition exOutput1b :: DescribeInstancesOutput where
  "exOutput1b =
     \<lparr>Out_Reservations =
        [\<lparr>Reservation_Instances =
            [\<lparr>Instance_Id = Some ''i-ghi'', Instance_Type = ''t3.large'',
              Instance_Tags = []\<rparr>]\<rparr>],
      Out_NextToken = None\<rparr>"

definition exOutput2 :: DescribeInstancesOutput where
  "exOutput2 =
     \<lparr>Out_Reservations =
        [\<lparr>Reservation_Instances =
            [\<lparr>Instance_Id = Some ''i-222'', Instance_Type = ''m5.large'',
              Instance_Tags = []\<rparr>]\<rparr>],
      Out_NextToken = None\<rparr>"

definition exAws :: aws_env where
  "exAws =
     \<lparr>loadDefaultConfig = (\<lambda>a. if a = ''444'' then Some ''no credentials'' else None),
      describeInstances = (\<lambda>a r qs q.
         if a = ''111''
         then (if In_NextToken q = Some ''page-2''
               then \<lparr>Attempts = 1, Outcome = Inr exOutput1b\<rparr>
               else \<lparr>Attempts = 1, Outcome = Inr exOutput1\<rparr>)
         else if a = ''222''
         then (if qs = []
               then \<lparr>Attempts = 3, Outcome = Inl ''RequestLimitExceeded''\<rparr>
               else \<lparr>Attempts = 1, Outcome = Inr exOutput2\<rparr>)
         else \<lparr>Attempts = 1, Outcome = Inr exOutput3\<rparr>)\<rparr>"

definition exConfigs :: "AccountConfig list" where
  "exConfigs =
     [\<lparr>account_id = ''111'', role_arn = ''arn:old''\<rparr>,
      \<lparr>account_id = ''222'', role_arn = ''arn:B''\<rparr>,
      \<lparr>account_id = ''111'', role_arn = ''arn:A''\<rparr>,
      \<lparr>account_id = ''333'', role_arn = ''arn:C''\<rparr>,
      \<lparr>account_id = ''444'', role_arn = ''arn:D''\<rparr>]"

definition exEnv :: env where
  "exEnv =
     \<lparr>args = [''collector'', ''accounts.json''],
      readFile = (\<lambda>f. if f = ''accounts.json'' then Inr ''[]'' else Inl ''no such file''),
      unmarshal = (\<lambda>d. Inr exConfigs),
      aws = exAws,
      completion = [],
      wallClock = (\<lambda>n. \<lparr>Year = 2024, Month = 1, Day = 15,
                          Hour = 14, Minute = 30, Second = 25 + n\<rparr>),
      saveInstant = 2,
      createError = (\<lambda>f. None),
      writeError = (\<lambda>n. None),
      fileAccepts = None\<rparr>"

definition exRecords1 :: "EC2Instance list" where
  "exRecords1 =
     [\<lparr>AccountID = ''111'', InstanceID = ''i-abc'', TagName = ''web1'', InstanceType = ''t3.micro''\<rparr>,
      \<lparr>AccountID = ''111'', InstanceID = ''i-def'', TagName = ''-'', InstanceType = ''t3.small''\<rparr>]"

definition exRecords3 :: "EC2Instance list" where
  "exRecords3 =
     [\<lparr>AccountID = ''333'', InstanceID = ''i-9'',
       TagName = ''db, '' @ [dquote] @ ''main'' @ [dquote, CR, LF],
       InstanceType = ''r5.large''\<rparr>]"

definition exAccounts :: "(string \<times> string) list" where
  "exAccounts = [(''111'', ''arn:A''), (''222'', ''arn:B''), (''333'', ''arn:C''), (''444'', ''arn:D'')]"

text \<open>The same run with account 111 finishing third.\<close>

definition exEnvLate :: env where
  "exEnvLate = exEnv\<lparr>completion := [2]\<rparr>"

text \<open>
  The same run on a full disk: the file is created, every call of \<open>Write\<close> puts its
  row into the writer's buffer and returns nil, and the file takes no byte when the
  buffer is flushed.
\<close>

definition exEnvFull :: env where
  "exEnvFull = exEnv\<lparr>fileAccepts := Some 0\<rparr>"


section \<open>Properties of the fetcher and the claim on tag names\<close>

lemma first_call:
  "DescribeInstances w a r newClient emptyInput =
     (firstAnswer w a r,
      \<lparr>client_calls = [emptyInput],
       client_requests = Attempts (describeInstances w a r [] emptyInput)\<rparr>)"
  by (simp add: DescribeInstances_def newClient_def firstAnswer_def Let_def)

lemma getEC2Instances_config_error:
  assumes "loadDefaultConfig w a = Some err"
  shows "getEC2Instances w a r =
     \<lparr>fetch_log = [ConfigLoadFailed a err], fetch_client = None, fetch_sent = Inr []\<rparr>"
  using assms by (simp add: getEC2Instances_def)

lemma getEC2Instances_call_error:
  assumes "loadDefaultConfig w a = None" and "firstAnswer w a r = Inl err"
  shows "getEC2Instances w a r =
     \<lparr>fetch_log = [DescribeFailed a err],
      fetch_client = Some \<lparr>client_calls = [emptyInput],
         client_requests = Attempts (describeInstances w a r [] emptyInput)\<rparr>,
      fetch_sent = Inr []\<rparr>"
  using assms by (simp add: getEC2Instances_def first_call)

lemma getEC2Instances_ok:
  assumes "loadDefaultConfig w a = None" and "firstAnswer w a r = Inr result"
  shows "fetch_sent (getEC2Instances w a r) = collectReservations a (Out_Reservations result) []"
    and "fetch_client (getEC2Instances w a r) =
      Some \<lparr>client_calls = [emptyInput],
         client_requests = Attempts (describeInstances w a r [] emptyInput)\<rparr>"
  using assms by (simp_all add: getEC2Instances_def first_call split: sum.splits)

lemma findNameTag_first:
  "findNameTag tags = Inr v \<Longrightarrow> firstNameTagValue tags = Some v"
  by (induction tags) (auto simp: firstNameTagValue_def split: option.splits if_splits)

lemma toRecord_fields:
  assumes "toRecord a inst = Inr r"
  shows "AccountID r = a" and "Instance_Id inst = Some (InstanceID r)"
    and "InstanceType r = Instance_Type inst"
    and "firstNameTagValue (Instance_Tags inst) = Some (TagName r)"
  using assms
  by (auto simp: toRecord_def findNameTag_first split: option.splits sum.splits)

lemma collectInstances_Inr:
  "collectInstances a insts acc = Inr out \<Longrightarrow>
     \<exists>rs. out = acc @ rs \<and> list_all2 (\<lambda>i r. toRecord a i = Inr r) insts rs"
proof (induction insts arbitrary: acc)
  case Nil
  then show ?case by simp
next
  case (Cons i insts)
  then obtain r where r: "toRecord a i = Inr r"
    and rest: "collectInstances a insts (acc @ [r]) = Inr out"
    by (auto split: sum.splits)
  from Cons.IH [OF rest] obtain rs where
    "out = (acc @ [r]) @ rs" "list_all2 (\<lambda>i r. toRecord a i = Inr r) insts rs"
    by blast
  with r have "out = acc @ (r # rs) \<and> list_all2 (\<lambda>i r. toRecord a i = Inr r) (i # insts) (r # rs)"
    by simp
  then show ?case by blast
qed

lemma collectReservations_Inr:
  "collectReservations a rsvs acc = Inr out \<Longrightarrow>
     \<exists>rs. out = acc @ rs \<and>
       list_all2 (\<lambda>i r. toRecord a i = Inr r) (concat (map Reservation_Instances rsvs)) rs"
proof (induction rsvs arbitrary: acc)
  case Nil
  then show ?case by simp
next
  case (Cons v rsvs)
  then obtain mid where mid: "collectInstances a (Reservation_Instances v) acc = Inr mid"
    and rest: "collectReservations a rsvs mid = Inr out"
    by (auto split: sum.splits)
  from collectInstances_Inr [OF mid] obtain rs1 where
    rs1: "mid = acc @ rs1" "list_all2 (\<lambda>i r. toRecord a i = Inr r) (Reservation_Instances v) rs1"
    by blast
  from Cons.IH [OF rest] obtain rs2 where
    rs2: "out = mid @ rs2"
      "list_all2 (\<lambda>i r. toRecord a i = Inr r) (concat (map Reservation_Instances rsvs)) rs2"
    by blast
  from rs1 rs2 have "out = acc @ (rs1 @ rs2) \<and>
      list_all2 (\<lambda>i r. toRecord a i = Inr r)
        (concat (map Reservation_Instances (v # rsvs))) (rs1 @ rs2)"
    by (simp add: list_all2_appendI)
  then show ?case by blast
qed

lemma getEC2Instances_sent:
  assumes "fetch_sent (getEC2Instances w a r) = Inr recs"
  shows "list_all2 (\<lambda>i rec. toRecord a i = Inr rec) (fetchedInstances w a r) recs"
proof (cases "loadDefaultConfig w a")
  case (Some err)
  with assms show ?thesis
    by (simp add: getEC2Instances_config_error fetchedInstances_def)
next
  case None
  show ?thesis
  proof (cases "firstAnswer w a r")
    case (Inl err)
    with None assms show ?thesis
      by (simp add: getEC2Instances_call_error fetchedInstances_def)
  next
    case (Inr result)
    with None assms have "collectReservations a (Out_Reservations result) [] = Inr recs"
      by (simp add: getEC2Instances_ok)
    from collectReservations_Inr [OF this] None Inr show ?thesis
      by (simp add: fetchedInstances_def responseInstances_def)
  qed
qed

text \<open>
  C1. Every record that the fetcher sends carries, as its tag name, the value of the first
  tag of its instance whose key is exactly \<open>Name\<close> (compared byte for byte, so \<open>name\<close>
  or \<open>NAME\<close> do not count), and the dash when the instance has no such tag, in particular
  when it has no tags at all. The records correspond one to one, in order, to the
  instances of the response.
\<close>

theorem tag_name_is_first_Name_tag:
  assumes "fetch_sent (getEC2Instances w accountID roleArn) = Inr recs"
  shows "list_all2
           (\<lambda>inst rec.
              firstNameTagValue (Instance_Tags inst) = Some (TagName rec) \<and>
              (find (\<lambda>t. Tag_Key t = Some ''Name'') (Instance_Tags inst) = None
                 \<longrightarrow> TagName rec = ''-'') \<and>
              (Instance_Tags inst = [] \<longrightarrow> TagName rec = ''-''))
           (fetchedInstances w accountID roleArn) recs"
proof -
  have "list_all2 (\<lambda>i rec. toRecord accountID i = Inr rec)
          (fetchedInstances w accountID roleArn) recs"
    using assms by (rule getEC2Instances_sent)
  then show ?thesis
  proof (rule list_all2_mono)
    fix inst rec
    assume "toRecord accountID inst = Inr rec"
    then have v: "firstNameTagValue (Instance_Tags inst) = Some (TagName rec)"
      by (rule toRecord_fields)
    then show "firstNameTagValue (Instance_Tags inst) = Some (TagName rec) \<and>
        (find (\<lambda>t. Tag_Key t = Some ''Name'') (Instance_Tags inst) = None
           \<longrightarrow> TagName rec = ''-'') \<and>
        (Instance_Tags inst = [] \<longrightarrow> TagName rec = ''-'')"
      by (auto simp: firstNameTagValue_def)
  qed
qed

theorem tag_name_is_first_Name_tag_witness:
  "fetch_sent (getEC2Instances exAws ''111'' ''arn:A'') = Inr exRecords1 \<and>
   map (\<lambda>i. firstNameTagValue (Instance_Tags i)) (fetchedInstances exAws ''111'' ''arn:A'')
     = [Some ''web1'', Some ''-''] \<and>
   map TagName exRecords1 = [''web1'', ''-'']"
proof -
  have sent: "fetch_sent (getEC2Instances exAws ''111'' ''arn:A'') = Inr exRecords1"
    by code_simp
  have insts: "fetchedInstances exAws ''111'' ''arn:A'' = responseInstances exOutput1"
    by code_simp
  from tag_name_is_first_Name_tag [OF sent] sent show ?thesis
    unfolding insts
    by (simp add: responseInstances_def exOutput1_def exRecords1_def)
qed

section \<open>The claims on nil pointers and on pagination\<close>

lemma findNameTag_total: "(\<exists>v. findNameTag tags = Inr v) \<longleftrightarrow> scannedTagsSet tags"
  by (induction tags) (auto simp: scannedTagsSet_def split: option.splits)

lemma toRecord_total:
  "(\<exists>rec. toRecord a i = Inr rec) \<longleftrightarrow> Instance_Id i \<noteq> None \<and> scannedTagsSet (Instance_Tags i)"
proof (cases "Instance_Id i")
  case None
  then show ?thesis by (simp add: toRecord_def)
next
  case (Some ident)
  show ?thesis
  proof (cases "findNameTag (Instance_Tags i)")
    case (Inl p)
    with Some findNameTag_total [of "Instance_Tags i"] show ?thesis
      by (simp add: toRecord_def)
  next
    case (Inr v)
    with Some findNameTag_total [of "Instance_Tags i"] show ?thesis
      by (simp add: toRecord_def)
  qed
qed

lemma collectInstances_total:
  "(\<exists>out. collectInstances a insts acc = Inr out) \<longleftrightarrow>
     list_all (\<lambda>i. Instance_Id i \<noteq> None \<and> scannedTagsSet (Instance_Tags i)) insts"
proof (induction insts arbitrary: acc)
  case Nil
  then show ?case by simp
next
  case (Cons i insts)
  show ?case
  proof (cases "toRecord a i")
    case (Inl p)
    then have "\<not> (\<exists>rec. toRecord a i = Inr rec)" by simp
    then have "\<not> (Instance_Id i \<noteq> None \<and> scannedTagsSet (Instance_Tags i))"
      using toRecord_total [of a i] by blast
    with Inl show ?thesis by auto
  next
    case (Inr rec)
    then have "\<exists>rec. toRecord a i = Inr rec" by simp
    then have "Instance_Id i \<noteq> None \<and> scannedTagsSet (Instance_Tags i)"
      using toRecord_total [of a i] by blast
    with Inr Cons.IH [of "acc @ [rec]"] show ?thesis by auto
  qed
qed

lemma collectReservations_total:
  "(\<exists>out. collectReservations a rsvs acc = Inr out) \<longleftrightarrow>
     readPointersSet (concat (map Reservation_Instances rsvs))"
proof (induction rsvs arbitrary: acc)
  case Nil
  then show ?case by (simp add: readPointersSet_def)
next
  case (Cons v rsvs)
  show ?case
  proof (cases "collectInstances a (Reservation_Instances v) acc")
    case (Inl p)
    then have "\<not> (\<exists>out. collectInstances a (Reservation_Instances v) acc = Inr out)" by simp
    then have "\<not> list_all (\<lambda>i. Instance_Id i \<noteq> None \<and> scannedTagsSet (Instance_Tags i))
        (Reservation_Instances v)"
      using collectInstances_total [of a "Reservation_Instances v" acc] by blast
    with Inl show ?thesis by (auto simp: readPointersSet_def)
  next
    case (Inr mid)
    then have "\<exists>out. collectInstances a (Reservation_Instances v) acc = Inr out" by simp
    then have "list_all (\<lambda>i. Instance_Id i \<noteq> None \<and> scannedTagsSet (Instance_Tags i))
        (Reservation_Instances v)"
      using collectInstances_total [of a "Reservation_Instances v" acc] by blast
    with Inr Cons.IH [of mid] show ?thesis by (auto simp: readPointersSet_def)
  qed
qed

lemma scanned_of_all:
  "list_all (\<lambda>t. Tag_Key t \<noteq> None \<and> Tag_Value t \<noteq> None) tags \<Longrightarrow> scannedTagsSet tags"
  by (induction tags) (auto simp: scannedTagsSet_def)

lemma read_of_all: "allPointersSet insts \<Longrightarrow> readPointersSet insts"
  by (induction insts) (auto simp: allPointersSet_def readPointersSet_def scanned_of_all)

text \<open>
  C10 (as stated). The claim has the fetcher read the key and the value pointer of every
  tag, so that a run without panic would need all of them set. In the sample response
  of account 111 a tag other than Name has a nil value and a tag after the first Name
  tag has a nil key, and the records are built all the same.
\<close>

theorem nil_value_without_panic:
  "\<not> allPointersSet (responseInstances exOutput1) \<and>
   loadDefaultConfig exAws ''111'' = None \<and>
   firstAnswer exAws ''111'' ''arn:A'' = Inr exOutput1 \<and>
   fetch_sent (getEC2Instances exAws ''111'' ''arn:A'') = Inr exRecords1"
  by code_simp

text \<open>
  C10 (amended). The fetcher reads, without a nil check, the identifier of every instance,
  the key of every tag up to and including the first tag whose key is \<open>Name\<close>, and
  the value of that tag only. When every instance has an identifier and every tag has a
  key and a value, no panic occurs and every instance of the response yields a record;
  and the records are built without panic exactly when the pointers that are read are
  set.
\<close>

theorem record_construction_panic_free:
  assumes "loadDefaultConfig w a = None"
    and "firstAnswer w a r = Inr result"
  shows "(allPointersSet (responseInstances result) \<longrightarrow>
            (\<exists>recs. fetch_sent (getEC2Instances w a r) = Inr recs \<and>
               length recs = length (responseInstances result))) \<and>
         ((\<exists>recs. fetch_sent (getEC2Instances w a r) = Inr recs) \<longleftrightarrow>
            readPointersSet (responseInstances result))"
proof -
  have sent: "fetch_sent (getEC2Instances w a r) = collectReservations a (Out_Reservations result) []"
    using assms by (rule getEC2Instances_ok)
  have iff: "(\<exists>recs. fetch_sent (getEC2Instances w a r) = Inr recs) \<longleftrightarrow>
      readPointersSet (responseInstances result)"
    unfolding sent responseInstances_def by (rule collectReservations_total)
  have "\<exists>recs. fetch_sent (getEC2Instances w a r) = Inr recs \<and>
      length recs = length (responseInstances result)"
    if "allPointersSet (responseInstances result)"
  proof -
    from that have "readPointersSet (responseInstances result)" by (rule read_of_all)
    with iff obtain recs where recs: "fetch_sent (getEC2Instances w a r) = Inr recs" by blast
    from getEC2Instances_sent [OF this] assms
    have "length recs = length (responseInstances result)"
      by (simp add: fetchedInstances_def list_all2_lengthD)
    with recs show ?thesis by blast
  qed
  with iff show ?thesis by blast
qed

theorem record_construction_panic_free_witness:
  "readPointersSet (responseInstances exOutput1) \<and>
   allPointersSet (responseInstances exOutput3) \<and>
   (\<exists>recs. fetch_sent (getEC2Instances exAws ''333'' ''arn:C'') = Inr recs \<and> length recs = 1) \<and>
   (\<exists>recs. fetch_sent (getEC2Instances exAws ''111'' ''arn:A'') = Inr recs)"
proof -
  have c: "loadDefaultConfig exAws ''333'' = None" "loadDefaultConfig exAws ''111'' = None"
    by (simp_all add: exAws_def)
  have d3: "firstAnswer exAws ''333'' ''arn:C'' = Inr exOutput3"
    by (simp add: exAws_def firstAnswer_def emptyInput_def)
  have d1: "firstAnswer exAws ''111'' ''arn:A'' = Inr exOutput1"
    by (simp add: exAws_def firstAnswer_def emptyInput_def)
  have p3: "allPointersSet (responseInstances exOutput3)" by code_simp
  have p1: "readPointersSet (responseInstances exOutput1)" by code_simp
  have l3: "length (responseInstances exOutput3) = 1" by code_simp
  from record_construction_panic_free [OF c(1) d3] p3 l3
  have "\<exists>recs. fetch_sent (getEC2Instances exAws ''333'' ''arn:C'') = Inr recs \<and> length recs = 1"
    by simp
  moreover from record_construction_panic_free [OF c(2) d1] p1
  have "\<exists>recs. fetch_sent (getEC2Instances exAws ''111'' ''arn:A'') = Inr recs"
    by blast
  ultimately show ?thesis using p1 p3 by blast
qed

text \<open>
  C7 (as stated). The claim has every fetch issue exactly one inventory query. When the
  configuration cannot be loaded the fetcher returns before the query: account 444 of
  the sample makes no call and no request is sent.
\<close>

theorem no_query_when_config_fails:
  "loadDefaultConfig exAws ''444'' = Some ''no credentials'' \<and>
   fetch_queries (getEC2Instances exAws ''444'' ''arn:D'') = [] \<and>
   fetch_requests (getEC2Instances exAws ''444'' ''arn:D'') = 0 \<and>
   length (fetch_queries (getEC2Instances exAws ''444'' ''arn:D'')) \<noteq> 1"
  by code_simp

text \<open>
  C7 (amended). The fetcher calls the operation at most once: exactly once, with the
  empty request and so without a continuation token, when the configuration loads, and
  not at all when it does not. The only requests sent are those that the SDK client sends
  within that one call; the program adds none. The records are built from the
  reservations of that one response, whatever continuation token it carries; an error of
  the call is logged and yields the empty list, and the call is not made again. Whatever
  the provider would answer to a second call, or to a call with a continuation token,
  has no influence on what the fetcher logs, calls and sends.
\<close>

theorem one_call_first_page_only:
  "fetch_queries (getEC2Instances w a r)
      = (case loadDefaultConfig w a of None \<Rightarrow> [emptyInput] | Some err \<Rightarrow> []) \<and>
   length (fetch_queries (getEC2Instances w a r)) \<le> 1 \<and>
   In_NextToken emptyInput = None \<and>
   fetch_requests (getEC2Instances w a r)
      = (case loadDefaultConfig w a of
           None \<Rightarrow> Attempts (describeInstances w a r [] emptyInput)
         | Some err \<Rightarrow> 0) \<and>
   (\<forall>result. loadDefaultConfig w a = None \<and> firstAnswer w a r = Inr result \<longrightarrow>
      fetch_sent (getEC2Instances w a r) = collectReservations a (Out_Reservations result) [] \<and>
      (\<forall>recs. fetch_sent (getEC2Instances w a r) = Inr recs \<longrightarrow>
         list_all2 (\<lambda>i rec. toRecord a i = Inr rec) (responseInstances result) recs)) \<and>
   (\<forall>err. loadDefaultConfig w a = None \<and> firstAnswer w a r = Inl err \<longrightarrow>
      fetch_queries (getEC2Instances w a r) = [emptyInput] \<and>
      fetch_log (getEC2Instances w a r) = [DescribeFailed a err] \<and>
      fetch_sent (getEC2Instances w a r) = Inr []) \<and>
   (\<forall>w'. loadDefaultConfig w' a = loadDefaultConfig w a \<and>
      describeInstances w' a r [] emptyInput = describeInstances w a r [] emptyInput \<longrightarrow>
      getEC2Instances w' a r = getEC2Instances w a r)"
proof -
  have q: "fetch_queries (getEC2Instances w a r)
      = (case loadDefaultConfig w a of None \<Rightarrow> [emptyInput] | Some err \<Rightarrow> [])"
    by (simp add: getEC2Instances_def first_call fetch_queries_def
        split: option.splits sum.splits)
  then have l: "length (fetch_queries (getEC2Instances w a r)) \<le> 1"
    by (simp split: option.splits)
  have t: "In_NextToken emptyInput = None" by (simp add: emptyInput_def)
  have n: "fetch_requests (getEC2Instances w a r)
      = (case loadDefaultConfig w a of
           None \<Rightarrow> Attempts (describeInstances w a r [] emptyInput)
         | Some err \<Rightarrow> 0)"
    by (simp add: getEC2Instances_def first_call fetch_requests_def
        split: option.splits sum.splits)
  have ok: "fetch_sent (getEC2Instances w a r) = collectReservations a (Out_Reservations result) [] \<and>
      (\<forall>recs. fetch_sent (getEC2Instances w a r) = Inr recs \<longrightarrow>
         list_all2 (\<lambda>i rec. toRecord a i = Inr rec) (responseInstances result) recs)"
    if "loadDefaultConfig w a = None \<and> firstAnswer w a r = Inr result" for result
  proof -
    from that have c: "loadDefaultConfig w a = None"
      and d: "firstAnswer w a r = Inr result" by simp_all
    have "list_all2 (\<lambda>i rec. toRecord a i = Inr rec) (responseInstances result) recs"
      if "fetch_sent (getEC2Instances w a r) = Inr recs" for recs
      using getEC2Instances_sent [OF that] c d by (simp add: fetchedInstances_def)
    with getEC2Instances_ok(1) [OF c d] show ?thesis by blast
  qed
  have err: "fetch_queries (getEC2Instances w a r) = [emptyInput] \<and>
      fetch_log (getEC2Instances w a r) = [DescribeFailed a err] \<and>
      fetch_sent (getEC2Instances w a r) = Inr []"
    if "loadDefaultConfig w a = None \<and> firstAnswer w a r = Inl err" for err
    using that by (simp add: getEC2Instances_call_error fetch_queries_def)
  have same: "getEC2Instances w' a r = getEC2Instances w a r"
    if "loadDefaultConfig w' a = loadDefaultConfig w a \<and>
      describeInstances w' a r [] emptyInput = describeInstances w a r [] emptyInput" for w'
  proof -
    from that have c: "loadDefaultConfig w' a = loadDefaultConfig w a"
      and d: "describeInstances w' a r [] emptyInput = describeInstances w a r [] emptyInput"
      by simp_all
    have "DescribeInstances w' a r newClient emptyInput = DescribeInstances w a r newClient emptyInput"
      by (simp add: DescribeInstances_def newClient_def d)
    then show ?thesis unfolding getEC2Instances_def c by (simp only:)
  qed
  show ?thesis
  proof (intro conjI)
    show "fetch_queries (getEC2Instances w a r)
        = (case loadDefaultConfig w a of None \<Rightarrow> [emptyInput] | Some err \<Rightarrow> [])"
      by (rule q)
    show "length (fetch_queries (getEC2Instances w a r)) \<le> 1" by (rule l)
    show "In_NextToken emptyInput = None" by (rule t)
    show "fetch_requests (getEC2Instances w a r)
        = (case loadDefaultConfig w a of
             None \<Rightarrow> Attempts (describeInstances w a r [] emptyInput)
           | Some err \<Rightarrow> 0)"
      by (rule n)
    show "\<forall>result. loadDefaultConfig w a = None \<and> firstAnswer w a r = Inr result \<longrightarrow>
        fetch_sent (getEC2Instances w a r) = collectReservations a (Out_Reservations result) [] \<and>
        (\<forall>recs. fetch_sent (getEC2Instances w a r) = Inr recs \<longrightarrow>
           list_all2 (\<lambda>i rec. toRecord a i = Inr rec) (responseInstances result) recs)"
      using ok by (intro allI impI)
    show "\<forall>err. loadDefaultConfig w a = None \<and> firstAnswer w a r = Inl err \<longrightarrow>
        fetch_queries (getEC2Instances w a r) = [emptyInput] \<and>
        fetch_log (getEC2Instances w a r) = [DescribeFailed a err] \<and>
        fetch_sent (getEC2Instances w a r) = Inr []"
      using err by (intro allI impI)
    show "\<forall>w'. loadDefaultConfig w' a = loadDefaultConfig w a \<and>
        describeInstances w' a r [] emptyInput = describeInstances w a r [] emptyInput \<longrightarrow>
        getEC2Instances w' a r = getEC2Instances w a r"
      using same by (intro allI impI)
  qed
qed

theorem one_call_first_page_only_witness:
  "Out_NextToken exOutput1 = Some ''page-2'' \<and>
   Outcome (describeInstances exAws ''111'' ''arn:A'' [emptyInput]
      \<lparr>In_NextToken = Some ''page-2'', In_MaxResults = None\<rparr>) = Inr exOutput1b \<and>
   fetch_queries (getEC2Instances exAws ''111'' ''arn:A'') = [emptyInput] \<and>
   fetch_sent (getEC2Instances exAws ''111'' ''arn:A'') = Inr exRecords1 \<and>
   length exRecords1 = length (responseInstances exOutput1) \<and>
   Outcome (describeInstances exAws ''222'' ''arn:B'' [emptyInput] emptyInput) = Inr exOutput2 \<and>
   fetch_queries (getEC2Instances exAws ''222'' ''arn:B'') = [emptyInput] \<and>
   fetch_requests (getEC2Instances exAws ''222'' ''arn:B'') = 3 \<and>
   fetch_log (getEC2Instances exAws ''222'' ''arn:B'')
     = [DescribeFailed ''222'' ''RequestLimitExceeded''] \<and>
   fetch_sent (getEC2Instances exAws ''222'' ''arn:B'') = Inr []"
proof -
  have c: "loadDefaultConfig exAws ''111'' = None" "loadDefaultConfig exAws ''222'' = None"
    by (simp_all add: exAws_def)
  have d1: "firstAnswer exAws ''111'' ''arn:A'' = Inr exOutput1"
    by (simp add: exAws_def firstAnswer_def emptyInput_def)
  have d2: "firstAnswer exAws ''222'' ''arn:B'' = Inl ''RequestLimitExceeded''"
    by (simp add: exAws_def firstAnswer_def)
  have a2: "Attempts (describeInstances exAws ''222'' ''arn:B'' [] emptyInput) = 3"
    by (simp add: exAws_def)
  have s: "fetch_sent (getEC2Instances exAws ''111'' ''arn:A'') = Inr exRecords1"
    by code_simp
  have p2: "Outcome (describeInstances exAws ''111'' ''arn:A'' [emptyInput]
      \<lparr>In_NextToken = Some ''page-2'', In_MaxResults = None\<rparr>) = Inr exOutput1b"
    by (simp add: exAws_def)
  have r2: "Outcome (describeInstances exAws ''222'' ''arn:B'' [emptyInput] emptyInput) = Inr exOutput2"
    by (simp add: exAws_def)
  note claim1 = one_call_first_page_only [of exAws "''111''" "''arn:A''"]
  note claim2 = one_call_first_page_only [of exAws "''222''" "''arn:B''"]
  from claim1 [THEN conjunct1] c(1)
  have q1: "fetch_queries (getEC2Instances exAws ''111'' ''arn:A'') = [emptyInput]"
    by simp
  note page1 = claim1 [THEN conjunct2, THEN conjunct2, THEN conjunct2, THEN conjunct2,
      THEN conjunct1, THEN spec, of exOutput1, THEN mp, OF conjI [OF c(1) d1]]
  from page1 [THEN conjunct2, THEN spec, THEN mp, OF s]
  have "list_all2 (\<lambda>i rec. toRecord ''111'' i = Inr rec) (responseInstances exOutput1) exRecords1" .
  then have n: "length exRecords1 = length (responseInstances exOutput1)"
    by (simp add: list_all2_lengthD)
  from claim2 [THEN conjunct2, THEN conjunct2, THEN conjunct2, THEN conjunct1] c(2) a2
  have n2: "fetch_requests (getEC2Instances exAws ''222'' ''arn:B'') = 3"
    by simp
  from claim2 [THEN conjunct2, THEN conjunct2, THEN conjunct2, THEN conjunct2, THEN conjunct2,
      THEN conjunct1, THEN spec, of "''RequestLimitExceeded''", THEN mp, OF conjI [OF c(2) d2]]
  have e2: "fetch_queries (getEC2Instances exAws ''222'' ''arn:B'') = [emptyInput] \<and>
      fetch_log (getEC2Instances exAws ''222'' ''arn:B'')
        = [DescribeFailed ''222'' ''RequestLimitExceeded''] \<and>
      fetch_sent (getEC2Instances exAws ''222'' ''arn:B'') = Inr []" .
  have t: "Out_NextToken exOutput1 = Some ''page-2''" by (simp add: exOutput1_def)
  from t p2 q1 s n r2 e2 n2 show ?thesis by (simp only: simp_thms)
qed

section \<open>Properties of the CSV writer\<close>


lemma parse_escapeQuoted:
  "parseCSV Quoted fld row rows (escapeQuoted f @ dquote # rest)
     = parseCSV QuoteSeen (rev f @ fld) row rows rest"
  by (induction f arbitrary: fld) simp_all

lemma parse_bare:
  "\<not> list_ex isSpecial f \<Longrightarrow>
     parseCSV Bare fld row rows (f @ rest) = parseCSV Bare (rev f @ fld) row rows rest"
  by (induction f arbitrary: fld) (simp_all add: isSpecial_def)

lemma unquoted_plain: "\<not> fieldNeedsQuotes f \<Longrightarrow> \<not> list_ex isSpecial f"
  by (auto simp: fieldNeedsQuotes_def split: if_splits)

lemma parse_field_comma:
  "parseCSV FieldStart [] row rows (writeField f @ comma # rest)
     = parseCSV FieldStart [] (f # row) rows rest"
proof (cases "fieldNeedsQuotes f")
  case True
  then show ?thesis
    using parse_escapeQuoted [of "[]" row rows f "comma # rest"]
    by (simp add: writeField_def)
next
  case False
  then have plain: "\<not> list_ex isSpecial f" by (rule unquoted_plain)
  show ?thesis
  proof (cases f)
    case Nil
    with False show ?thesis by (simp add: writeField_def)
  next
    case (Cons c cs)
    with plain have c: "c \<noteq> dquote" "c \<noteq> comma" "c \<noteq> LF" and cs: "\<not> list_ex isSpecial cs"
      by (auto simp: isSpecial_def)
    from False Cons c parse_bare [OF cs, of "[c]" row rows "comma # rest"]
    show ?thesis by (simp add: writeField_def)
  qed
qed

lemma parse_field_LF:
  "parseCSV FieldStart [] row rows (writeField f @ LF # rest)
     = parseCSV FieldStart [] [] (rev (f # row) # rows) rest"
proof (cases "fieldNeedsQuotes f")
  case True
  then show ?thesis
    using parse_escapeQuoted [of "[]" row rows f "LF # rest"]
    by (simp add: writeField_def)
next
  case False
  then have plain: "\<not> list_ex isSpecial f" by (rule unquoted_plain)
  show ?thesis
  proof (cases f)
    case Nil
    with False show ?thesis by (simp add: writeField_def)
  next
    case (Cons c cs)
    with plain have c: "c \<noteq> dquote" "c \<noteq> comma" "c \<noteq> LF" and cs: "\<not> list_ex isSpecial cs"
      by (auto simp: isSpecial_def)
    from False Cons c parse_bare [OF cs, of "[c]" row rows "LF # rest"]
    show ?thesis by (simp add: writeField_def)
  qed
qed

lemma writeFields_later:
  "0 < n \<Longrightarrow> writeFields n fs = concat (map (\<lambda>g. comma # writeField g) fs)"
  by (induction fs arbitrary: n) simp_all

lemma parse_fields:
  "parseCSV FieldStart [] row rows
      (writeField f @ concat (map (\<lambda>g. comma # writeField g) fs) @ LF # rest)
     = parseCSV FieldStart [] [] (rev (rev (f # fs) @ row) # rows) rest"
proof (induction fs arbitrary: f row)
  case Nil
  then show ?case by (simp add: parse_field_LF)
next
  case (Cons g fs)
  have "parseCSV FieldStart [] row rows
      (writeField f @ concat (map (\<lambda>g. comma # writeField g) (g # fs)) @ LF # rest)
    = parseCSV FieldStart [] (f # row) rows
      (writeField g @ concat (map (\<lambda>g. comma # writeField g) fs) @ LF # rest)"
    using parse_field_comma [of row rows f] by simp
  also have "\<dots> = parseCSV FieldStart [] [] (rev (rev (g # fs) @ f # row) # rows) rest"
    by (rule Cons.IH)
  finally show ?case by simp
qed

lemma parse_csvWrite:
  "r \<noteq> [] \<Longrightarrow>
     parseCSV FieldStart [] [] rows (csvWrite r @ rest) = parseCSV FieldStart [] [] (r # rows) rest"
proof (cases r)
  case Nil
  assume "r \<noteq> []"
  with Nil show ?thesis by simp
next
  case (Cons f fs)
  then show ?thesis
    using parse_fields [of "[]" rows f fs rest]
    by (simp add: csvWrite_def writeFields_later)
qed

lemma parse_rows:
  "\<forall>r \<in> set rs. r \<noteq> [] \<Longrightarrow>
     parseCSV FieldStart [] [] rows (concat (map csvWrite rs)) = Some (rev rows @ rs)"
proof (induction rs arbitrary: rows)
  case Nil
  then show ?case by simp
next
  case (Cons r rs)
  then have "parseCSV FieldStart [] [] rows (concat (map csvWrite (r # rs)))
      = parseCSV FieldStart [] [] (r # rows) (concat (map csvWrite rs))"
    using parse_csvWrite [of r rows "concat (map csvWrite rs)"] by simp
  also have "\<dots> = Some (rev (r # rows) @ rs)"
    using Cons by simp
  finally show ?case by simp
qed

lemma writeRows_ok:
  "(\<forall>k. n \<le> k \<and> k < n + length instances \<longrightarrow> werr k = None) \<Longrightarrow>
     writeRows werr n instances handed
       = (None, handed @ concat (map (\<lambda>i. csvWrite (recordFields i)) instances))"
proof (induction instances arbitrary: n handed)
  case Nil
  then show ?case by simp
next
  case (Cons i instances)
  from Cons.prems have here: "werr n = None" by simp
  from Cons.prems have "\<forall>k. Suc n \<le> k \<and> k < Suc n + length instances \<longrightarrow> werr k = None"
    by simp
  from Cons.IH [OF this] here show ?case by simp
qed

lemma writeRows_nil:
  "writeRows werr n instances handed = (None, out) \<Longrightarrow>
     out = handed @ concat (map (\<lambda>i. csvWrite (recordFields i)) instances)"
proof (induction instances arbitrary: n handed)
  case Nil
  then show ?case by simp
next
  case (Cons i instances)
  from Cons.prems
  have "writeRows werr (Suc n) instances (handed @ csvWrite (recordFields i)) = (None, out)"
    by (simp split: option.splits)
  from Cons.IH [OF this] show ?case by simp
qed

lemma stored_all: "stored None handed = handed"
  by (simp add: stored_def)

lemma stored_nothing: "stored (Some 0) handed = []"
  by (simp add: stored_def)

lemma writeCSV_nil:
  assumes "w_error (writeCSV cerr werr acc name instances) = None"
  shows "w_file (writeCSV cerr werr acc name instances) = Some (stored acc (csvStream instances))"
proof -
  from assms have c: "cerr name = None" and h: "werr 0 = None"
    by (auto simp: writeCSV_def split: option.splits)
  obtain err out where r: "writeRows werr 1 instances (csvWrite csvHeader) = (err, out)"
    by (cases "writeRows werr 1 instances (csvWrite csvHeader)")
  with assms c h have "err = None" by (simp add: writeCSV_def)
  with r have "out = csvWrite csvHeader @ concat (map (\<lambda>i. csvWrite (recordFields i)) instances)"
    by (simp add: writeRows_nil)
  then have "out = csvStream instances" by (simp add: csvStream_def comp_def)
  with c h r show ?thesis by (simp add: writeCSV_def)
qed

lemma writeCSV_ok:
  assumes "cerr name = None" and "\<forall>n. werr n = None"
  shows "writeCSV cerr werr acc name instances
     = \<lparr>w_error = None, w_file = Some (stored acc (csvStream instances))\<rparr>"
  using assms by (simp add: writeCSV_def writeRows_ok csvStream_def comp_def)

lemma writeCSV_same_file:
  assumes "w_file (writeCSV cerr werr acc name instances) = Some c"
    and "w_file (writeCSV cerr' werr acc name' instances) = Some c'"
  shows "c' = c"
  using assms by (auto simp: writeCSV_def split: option.splits prod.splits)

lemma csvRows_stream: "csvRows (csvStream instances) = Some (csvHeader # map recordFields instances)"
proof -
  have "\<forall>r \<in> set (csvHeader # map recordFields instances). r \<noteq> []"
    by (auto simp: csvHeader_def recordFields_def)
  from parse_rows [OF this, of "[]"] show ?thesis
    by (simp add: csvRows_def csvStream_def)
qed

lemma rowsRecords_fields: "rowsRecords (map recordFields instances) = Some instances"
  by (induction instances) (simp_all add: recordFields_def)

lemma readCSV_stream: "readCSV (csvStream instances) = Some instances"
  by (simp add: readCSV_def csvRows_stream rowsRecords_fields)

lemma csvRows_empty: "csvRows [] = Some []"
  by (simp add: csvRows_def)

lemma readCSV_empty: "readCSV [] = None"
  by (simp add: readCSV_def csvRows_empty)

section \<open>Properties of the loader and of the arrangement of the calls\<close>

lemma mset_insertAt: "mset (insertAt n x ys) = add_mset x (mset ys)"
  by (induction n x ys rule: insertAt.induct) simp_all

lemma mset_arrange: "mset (arrange ps xs) = mset xs"
  by (induction ps xs rule: arrange.induct) (simp_all add: mset_insertAt)

lemma set_arrange: "set (arrange ps xs) = set xs"
  using mset_arrange [of ps xs] by (metis set_mset_mset)

lemma length_arrange: "length (arrange ps xs) = length xs"
  using mset_arrange [of ps xs] by (metis size_mset)

lemma distinct_keys_arrange:
  "distinct (map fst xs) \<Longrightarrow> distinct (map fst (arrange ps xs))"
proof -
  have "mset (map fst (arrange ps xs)) = mset (map fst xs)"
    by (simp add: mset_arrange)
  then show "distinct (map fst xs) \<Longrightarrow> distinct (map fst (arrange ps xs))"
    by (metis mset_eq_imp_distinct_iff)
qed

lemma accountsLoop_distinct:
  "distinct (map fst accounts) \<Longrightarrow> distinct (map fst (accountsLoop cfgs accounts))"
  by (induction cfgs arbitrary: accounts) (simp_all add: distinct_update)

lemma accountsLoop_keys:
  "fst ` set (accountsLoop cfgs accounts) = fst ` set accounts \<union> account_id ` set cfgs"
  by (induction cfgs arbitrary: accounts) (auto simp: dom_update)

lemma lastRoleFor_Nil: "lastRoleFor [] a = None"
  by (simp add: lastRoleFor_def)

lemma lastRoleFor_Cons:
  "lastRoleFor (c # cs) a =
     (case lastRoleFor cs a of
        Some r \<Rightarrow> Some r
      | None \<Rightarrow> if account_id c = a then Some (role_arn c) else None)"
  by (auto simp: lastRoleFor_def split: list.splits)

lemma accountsLoop_map_of:
  "map_of (accountsLoop cfgs accounts) a =
     (case lastRoleFor cfgs a of Some r \<Rightarrow> Some r | None \<Rightarrow> map_of accounts a)"
proof (induction cfgs arbitrary: accounts)
  case Nil
  then show ?case by (simp add: lastRoleFor_Nil)
next
  case (Cons c cfgs)
  show ?case
    by (simp add: Cons.IH lastRoleFor_Cons update_conv' split: option.splits)
qed

section \<open>Properties of the coordinator\<close>

lemma gather_Inr:
  "gather outs acc = Inr allInstances \<Longrightarrow>
     \<exists>slices. map fetch_sent outs = map Inr slices \<and> allInstances = acc @ concat slices"
proof (induction outs arbitrary: acc)
  case Nil
  then show ?case by simp
next
  case (Cons out outs)
  then obtain s where s: "fetch_sent out = Inr s" and rest: "gather outs (acc @ s) = Inr allInstances"
    by (auto split: sum.splits)
  from Cons.IH [OF rest] obtain slices where
    "map fetch_sent outs = map Inr slices" "allInstances = (acc @ s) @ concat slices"
    by blast
  with s have "map fetch_sent (out # outs) = map Inr (s # slices) \<and>
      allInstances = acc @ concat (s # slices)"
    by simp
  then show ?case by blast
qed


lemma main_Ran:
  assumes "main e = Ran rep"
  shows "\<exists>accounts.
      2 \<le> length (args e) \<and>
      loadAccountsFromFile (readFile e) (unmarshal e) (args e ! 1) = Inr accounts \<and>
      rep_calls rep = fetchCalls e accounts \<and>
      rep_fetches rep = map (\<lambda>(a, r). getEC2Instances (aws e) a r) (rep_calls rep) \<and>
      gather (rep_fetches rep) [] = Inr (rep_records rep) \<and>
      rep_file rep = outputFile e \<and>
      rep_written rep = w_error (writeCSV (createError e) (writeError e) (fileAccepts e)
         (outputFile e) (rep_records rep)) \<and>
      rep_content rep = w_file (writeCSV (createError e) (writeError e) (fileAccepts e)
         (outputFile e) (rep_records rep)) \<and>
      rep_console rep = consoleTable (rep_records rep)
         @ (case rep_written rep of Some err \<Rightarrow> [] | None \<Rightarrow> [Saved (outputFile e)])"
proof -
  from assms have a: "2 \<le> length (args e)"
    by (simp add: main_def split: if_splits)
  with assms obtain accounts where
    l: "loadAccountsFromFile (readFile e) (unmarshal e) (args e ! 1) = Inr accounts"
    by (cases "loadAccountsFromFile (readFile e) (unmarshal e) (args e ! 1)")
       (simp_all add: main_def)
  define outs where "outs = map (\<lambda>(a, r). getEC2Instances (aws e) a r) (fetchCalls e accounts)"
  from assms a l obtain allInstances where g: "gather outs [] = Inr allInstances"
    by (cases "gather outs []") (simp_all add: main_def Let_def outs_def)
  define w where "w = writeCSV (createError e) (writeError e) (fileAccepts e)
      (outputFile e) allInstances"
  from assms a l g have "rep =
      \<lparr>rep_calls = fetchCalls e accounts, rep_fetches = outs,
       rep_records = allInstances,
       rep_console = consoleTable allInstances
         @ (case w_error w of Some err \<Rightarrow> [] | None \<Rightarrow> [Saved (outputFile e)]),
       rep_file = outputFile e,
       rep_written = w_error w,
       rep_content = w_file w\<rparr>"
    by (simp add: main_def Let_def outs_def w_def)
  with a l g show ?thesis by (simp add: outs_def w_def)
qed

section \<open>Properties of the time stamp\<close>

lemma decimal_length: "0 < w \<Longrightarrow> n < 10 ^ w \<Longrightarrow> length (decimal n) \<le> w"
proof (induction w arbitrary: n)
  case 0
  then show ?case by simp
next
  case (Suc w)
  show ?case
  proof (cases "n < 10")
    case True
    then show ?thesis by (simp add: decimal.simps)
  next
    case False
    with Suc.prems have w: "0 < w" by (cases w) auto
    from Suc.prems have "n div 10 < 10 ^ w" by (simp add: less_mult_imp_div_less mult.commute)
    from Suc.IH [OF w this] have "length (decimal (n div 10)) \<le> w" .
    moreover from False have "decimal n = decimal (n div 10) @ [digitChars ! (n mod 10)]"
      by (simp add: decimal.simps [of n])
    ultimately show ?thesis by simp
  qed
qed

lemma digit_char: "d < 10 \<Longrightarrow> digitChars ! d \<in> set digitChars"
  by (rule nth_mem) (simp add: digitChars_def)

lemma decimal_digits: "set (decimal n) \<subseteq> set digitChars"
proof (induction n rule: decimal.induct)
  case (1 n)
  show ?case
  proof (cases "n < 10")
    case True
    then show ?thesis by (simp add: decimal.simps [of n] digit_char)
  next
    case False
    with 1 have "set (decimal (n div 10)) \<subseteq> set digitChars" by simp
    moreover from False have "decimal n = decimal (n div 10) @ [digitChars ! (n mod 10)]"
      by (simp add: decimal.simps [of n])
    ultimately show ?thesis by (simp add: digit_char)
  qed
qed

lemma appendInt_shape:
  assumes "0 < w" "n < 10 ^ w"
  shows "length (appendInt n w) = w \<and> set (appendInt n w) \<subseteq> set digitChars"
proof
  from assms have "length (decimal n) \<le> w" by (rule decimal_length)
  then show "length (appendInt n w) = w" by (simp add: appendInt_def)
  have "CHR ''0'' \<in> set digitChars" by (simp add: digitChars_def)
  then have "set (replicate (w - length (decimal n)) CHR ''0'') \<subseteq> set digitChars"
    by (auto simp only: set_replicate_conv_if split: if_splits)
  with decimal_digits [of n] show "set (appendInt n w) \<subseteq> set digitChars"
    by (simp add: appendInt_def)
qed

lemma formatStamp_shape:
  assumes "validTime t"
  shows "\<exists>Y M D h m s.
      formatStamp t = Y @ M @ D @ ''_'' @ h @ m @ s \<and>
      length Y = 4 \<and> length M = 2 \<and> length D = 2 \<and> length h = 2 \<and> length m = 2 \<and> length s = 2 \<and>
      set (Y @ M @ D @ h @ m @ s) \<subseteq> set digitChars"
proof -
  have four: "(0::nat) < 4" and two: "(0::nat) < 2" by simp_all
  from assms have "Year t < 10 ^ 4" by (simp add: validTime_def)
  from appendInt_shape [OF four this]
  have Y: "length (appendInt (Year t) 4) = 4" "set (appendInt (Year t) 4) \<subseteq> set digitChars"
    by blast+
  from assms have "Month t < 10 ^ 2" by (simp add: validTime_def)
  from appendInt_shape [OF two this]
  have M: "length (appendInt (Month t) 2) = 2" "set (appendInt (Month t) 2) \<subseteq> set digitChars"
    by blast+
  from assms have "Day t < 10 ^ 2" by (simp add: validTime_def)
  from appendInt_shape [OF two this]
  have D: "length (appendInt (Day t) 2) = 2" "set (appendInt (Day t) 2) \<subseteq> set digitChars"
    by blast+
  from assms have "Hour t < 10 ^ 2" by (simp add: validTime_def)
  from appendInt_shape [OF two this]
  have h: "length (appendInt (Hour t) 2) = 2" "set (appendInt (Hour t) 2) \<subseteq> set digitChars"
    by blast+
  from assms have "Minute t < 10 ^ 2" by (simp add: validTime_def)
  from appendInt_shape [OF two this]
  have m: "length (appendInt (Minute t) 2) = 2" "set (appendInt (Minute t) 2) \<subseteq> set digitChars"
    by blast+
  from assms have "Second t < 10 ^ 2" by (simp add: validTime_def)
  from appendInt_shape [OF two this]
  have s: "length (appendInt (Second t) 2) = 2" "set (appendInt (Second t) 2) \<subseteq> set digitChars"
    by blast+
  have digits: "set (appendInt (Year t) 4 @ appendInt (Month t) 2 @ appendInt (Day t) 2 @
      appendInt (Hour t) 2 @ appendInt (Minute t) 2 @ appendInt (Second t) 2) \<subseteq> set digitChars"
    using Y(2) M(2) D(2) h(2) m(2) s(2) by (simp only: set_append Un_subset_iff simp_thms)
  have "formatStamp t = appendInt (Year t) 4 @ appendInt (Month t) 2 @ appendInt (Day t) 2 @ ''_'' @
     appendInt (Hour t) 2 @ appendInt (Minute t) 2 @ appendInt (Second t) 2"
    by (simp only: formatStamp_def)
  with Y(1) M(1) D(1) h(1) m(1) s(1) digits show ?thesis by blast
qed

section \<open>Runs of the coordinator\<close>

lemma sent_account:
  assumes "fetch_sent (getEC2Instances w a r) = Inr recs" and "rec \<in> set recs"
  shows "AccountID rec = a"
proof -
  from getEC2Instances_sent [OF assms(1)]
  have "list_all2 (\<lambda>i rec. toRecord a i = Inr rec) (fetchedInstances w a r) recs" .
  with assms(2) obtain i where "toRecord a i = Inr rec"
    by (auto simp: list_all2_conv_all_nth in_set_conv_nth)
  then show ?thesis by (rule toRecord_fields)
qed



lemma record_origin:
  assumes "main e = Ran rep" and "rec \<in> set (rep_records rep)"
  shows "\<exists>a r recs. (a, r) \<in> set (rep_calls rep) \<and>
      fetch_sent (getEC2Instances (aws e) a r) = Inr recs \<and> rec \<in> set recs"
proof -
  from main_Ran [OF assms(1)] have
    f: "rep_fetches rep = map (\<lambda>(a, r). getEC2Instances (aws e) a r) (rep_calls rep)"
    and g: "gather (rep_fetches rep) [] = Inr (rep_records rep)"
    by blast+
  from gather_Inr [OF g] obtain slices where
    s: "map fetch_sent (rep_fetches rep) = map Inr slices" and c: "rep_records rep = concat slices"
    by auto
  from assms(2) c obtain recs where recs: "recs \<in> set slices" "rec \<in> set recs" by auto
  from recs(1) have "Inr recs \<in> set (map fetch_sent (rep_fetches rep))"
    by (simp add: s)
  then obtain out where "out \<in> set (rep_fetches rep)" "fetch_sent out = Inr recs" by auto
  with f obtain a r where "(a, r) \<in> set (rep_calls rep)"
    "fetch_sent (getEC2Instances (aws e) a r) = Inr recs"
    by auto
  with recs(2) show ?thesis by blast
qed

lemma main_run:
  assumes "2 \<le> length (args e)"
    and "loadAccountsFromFile (readFile e) (unmarshal e) (args e ! 1) = Inr accounts"
    and "gather (map (\<lambda>(a, r). getEC2Instances (aws e) a r) (fetchCalls e accounts)) []
           = Inr allInstances"
  shows "\<exists>rep. main e = Ran rep \<and>
      rep_calls rep = fetchCalls e accounts \<and>
      rep_records rep = allInstances \<and>
      rep_file rep = outputFile e \<and>
      rep_written rep = w_error (writeCSV (createError e) (writeError e) (fileAccepts e)
         (outputFile e) allInstances) \<and>
      rep_content rep = w_file (writeCSV (createError e) (writeError e) (fileAccepts e)
         (outputFile e) allInstances) \<and>
      rep_console rep = consoleTable allInstances
         @ (case rep_written rep of Some err \<Rightarrow> [] | None \<Rightarrow> [Saved (outputFile e)])"
  using assms by (simp add: main_def Let_def)

text \<open>The sample run, step by step.\<close>

lemma exEnv_args: "2 \<le> length (args exEnv)"
  by (simp add: exEnv_def)

lemma exEnv_load:
  "loadAccountsFromFile (readFile exEnv) (unmarshal exEnv) (args exEnv ! 1) = Inr exAccounts"
  by code_simp

lemma exEnv_calls: "fetchCalls exEnv exAccounts = exAccounts"
  by code_simp

lemma exEnv_gather:
  "gather (map (\<lambda>(a, r). getEC2Instances (aws exEnv) a r) (fetchCalls exEnv exAccounts)) []
     = Inr (exRecords1 @ exRecords3)"
  by code_simp

lemma exEnv_file: "outputFile exEnv = ''ec2_instances_20240115_143027.csv''"
  by (simp add: outputFile_def exEnv_def formatStamp_def appendInt_def decimal.simps digitChars_def)

section \<open>The claims on the accounts of a run\<close>

text \<open>
  C9. In every run that reaches the report, every record of the merged list carries an
  account ID that is a key of the account mapping loaded from the config file.
\<close>

theorem records_belong_to_loaded_accounts:
  assumes "main e = Ran rep"
  shows "\<exists>accounts.
           loadAccountsFromFile (readFile e) (unmarshal e) (args e ! 1) = Inr accounts \<and>
           (\<forall>rec \<in> set (rep_records rep). AccountID rec \<in> fst ` set accounts)"
proof -
  from main_Ran [OF assms] obtain accounts where
    l: "loadAccountsFromFile (readFile e) (unmarshal e) (args e ! 1) = Inr accounts"
    and c: "rep_calls rep = fetchCalls e accounts"
    by blast
  have "AccountID rec \<in> fst ` set accounts" if "rec \<in> set (rep_records rep)" for rec
  proof -
    from record_origin [OF assms that] obtain a r recs where
      ar: "(a, r) \<in> set (rep_calls rep)"
      and s: "fetch_sent (getEC2Instances (aws e) a r) = Inr recs" and m: "rec \<in> set recs"
      by blast
    from s m have "AccountID rec = a" by (rule sent_account)
    moreover from ar c have "(a, r) \<in> set accounts"
      by (simp add: fetchCalls_def set_arrange)
    ultimately show ?thesis by force
  qed
  with l show ?thesis by blast
qed

theorem records_belong_to_loaded_accounts_witness:
  "\<exists>rep. main exEnv = Ran rep \<and> rep_records rep = exRecords1 @ exRecords3 \<and>
     (\<forall>rec \<in> set (rep_records rep). AccountID rec \<in> {''111'', ''222'', ''333'', ''444''})"
proof -
  from main_run [OF exEnv_args exEnv_load exEnv_gather] obtain rep where
    rep: "main exEnv = Ran rep" and recs: "rep_records rep = exRecords1 @ exRecords3"
    by blast
  from records_belong_to_loaded_accounts [OF rep] exEnv_load
  have "\<forall>rec \<in> set (rep_records rep). AccountID rec \<in> fst ` set exAccounts"
    by simp
  then have "\<forall>rec \<in> set (rep_records rep). AccountID rec \<in> {''111'', ''222'', ''333'', ''444''}"
    by (simp add: exAccounts_def)
  with rep recs show ?thesis by blast
qed

text \<open>
  C4. When the config file is read and decoded into an array of entries, the coordinator
  calls the fetcher once for each account ID that occurs in the array: the number of
  calls is the number of distinct account IDs, no account ID is called twice, and each
  call carries the role of the last entry of the array with that account ID. A run that
  reaches the report has made exactly these calls.
\<close>

theorem one_call_per_account_last_role_wins:
  assumes "2 \<le> length (args e)"
    and "readFile e (args e ! 1) = Inr data"
    and "unmarshal e data = Inr cfgs"
  shows "\<exists>accounts.
           loadAccountsFromFile (readFile e) (unmarshal e) (args e ! 1) = Inr accounts \<and>
           length (fetchCalls e accounts) = card (account_id ` set cfgs) \<and>
           distinct (map fst (fetchCalls e accounts)) \<and>
           fst ` set (fetchCalls e accounts) = account_id ` set cfgs \<and>
           (\<forall>(a, r) \<in> set (fetchCalls e accounts). lastRoleFor cfgs a = Some r) \<and>
           (\<forall>rep. main e = Ran rep \<longrightarrow>
              rep_calls rep = fetchCalls e accounts \<and>
              rep_fetches rep = map (\<lambda>(a, r). getEC2Instances (aws e) a r) (fetchCalls e accounts))"
proof -
  define accounts where "accounts = accountsLoop cfgs []"
  have l: "loadAccountsFromFile (readFile e) (unmarshal e) (args e ! 1) = Inr accounts"
    using assms by (simp add: loadAccountsFromFile_def accounts_def)
  have d: "distinct (map fst accounts)"
    by (simp add: accounts_def accountsLoop_distinct)
  have k: "fst ` set accounts = account_id ` set cfgs"
    by (simp add: accounts_def accountsLoop_keys)
  have "length (fetchCalls e accounts) = length (map fst accounts)"
    by (simp add: fetchCalls_def length_arrange)
  also from d have "\<dots> = card (set (map fst accounts))"
    by (simp only: distinct_card)
  also from k have "\<dots> = card (account_id ` set cfgs)" by simp
  finally have n: "length (fetchCalls e accounts) = card (account_id ` set cfgs)" .
  from d have dc: "distinct (map fst (fetchCalls e accounts))"
    by (simp add: fetchCalls_def distinct_keys_arrange)
  from k have kc: "fst ` set (fetchCalls e accounts) = account_id ` set cfgs"
    by (simp add: fetchCalls_def set_arrange)
  have lw: "\<forall>(a, r) \<in> set (fetchCalls e accounts). lastRoleFor cfgs a = Some r"
  proof (clarify)
    fix a r
    assume "(a, r) \<in> set (fetchCalls e accounts)"
    then have "(a, r) \<in> set accounts" by (simp add: fetchCalls_def set_arrange)
    with d have "map_of accounts a = Some r" by simp
    then show "lastRoleFor cfgs a = Some r"
      by (simp add: accounts_def accountsLoop_map_of split: option.splits)
  qed
  have m: "\<forall>rep. main e = Ran rep \<longrightarrow>
      rep_calls rep = fetchCalls e accounts \<and>
      rep_fetches rep = map (\<lambda>(a, r). getEC2Instances (aws e) a r) (fetchCalls e accounts)"
  proof (intro allI impI)
    fix rep
    assume "main e = Ran rep"
    from main_Ran [OF this] l
    show "rep_calls rep = fetchCalls e accounts \<and>
      rep_fetches rep = map (\<lambda>(a, r). getEC2Instances (aws e) a r) (fetchCalls e accounts)"
      by auto
  qed
  from l n dc kc lw m show ?thesis by blast
qed

theorem one_call_per_account_last_role_wins_witness:
  "length exConfigs = 5 \<and> card (account_id ` set exConfigs) = 4 \<and>
   lastRoleFor exConfigs ''111'' = Some ''arn:A'' \<and>
   (\<exists>rep. main exEnv = Ran rep \<and> rep_calls rep = exAccounts)"
proof -
  have r: "readFile exEnv (args exEnv ! 1) = Inr ''[]''" by (simp add: exEnv_def)
  have u: "unmarshal exEnv ''[]'' = Inr exConfigs" by (simp add: exEnv_def)
  from one_call_per_account_last_role_wins [OF exEnv_args r u] exEnv_load exEnv_calls
  have n: "length exAccounts = card (account_id ` set exConfigs)"
    and w: "\<forall>(a, r) \<in> set exAccounts. lastRoleFor exConfigs a = Some r"
    and m: "\<forall>rep. main exEnv = Ran rep \<longrightarrow> rep_calls rep = exAccounts"
    by auto
  from n have "card (account_id ` set exConfigs) = 4" by (simp add: exAccounts_def)
  moreover from w have "lastRoleFor exConfigs ''111'' = Some ''arn:A''"
    by (simp add: exAccounts_def)
  moreover from main_run [OF exEnv_args exEnv_load exEnv_gather] m
  have "\<exists>rep. main exEnv = Ran rep \<and> rep_calls rep = exAccounts" by blast
  moreover have "length exConfigs = 5" by (simp add: exConfigs_def)
  ultimately show ?thesis by simp
qed

section \<open>The claim on the file name\<close>

text \<open>
  C6 (as stated). The claim takes the time stamp of the file name at the start of the
  program. In the sample run the clock shows 14:30:25 at the start and 14:30:27 when the
  name is formed, and the file is named after the latter.
\<close>

theorem file_name_stamp_is_start_time_counterexample:
  "map_option rep_file (theReport (main exEnv)) = Some ''ec2_instances_20240115_143027.csv'' \<and>
   ''ec2_instances_'' @ formatStamp (wallClock exEnv 0) @ ''.csv'' = ''ec2_instances_20240115_143025.csv'' \<and>
   map_option rep_file (theReport (main exEnv))
     \<noteq> Some (''ec2_instances_'' @ formatStamp (wallClock exEnv 0) @ ''.csv'')"
proof -
  from main_run [OF exEnv_args exEnv_load exEnv_gather] obtain rep where
    "main exEnv = Ran rep" "rep_file rep = outputFile exEnv"
    by blast
  then have r: "theReport (main exEnv) = Some rep"
    and f: "rep_file rep = ''ec2_instances_20240115_143027.csv''"
    by (simp_all add: theReport_def exEnv_file)
  have b: "formatStamp (wallClock exEnv 0) = ''20240115_143025''"
    by (simp add: exEnv_def formatStamp_def appendInt_def decimal.simps digitChars_def)
  show ?thesis by (simp add: r f b)
qed

text \<open>
  C6 (amended). The name of the output file is \<open>ec2_instances_\<close>, the time stamp and
  \<open>.csv\<close>, where the time stamp is the local wall-clock time read at line 210, after all
  fetches have completed and the console table has been printed, just before the CSV
  file is written under that name. For a clock reading with a year of at most four
  digits the stamp is four, two and two digits, an underscore, and two, two and two
  digits.
\<close>

theorem file_name_stamp_is_save_time:
  assumes "main e = Ran rep"
  shows "rep_file rep = ''ec2_instances_'' @ formatStamp (wallClock e (saveInstant e)) @ ''.csv'' \<and>
         rep_written rep = w_error (writeCSV (createError e) (writeError e) (fileAccepts e)
            (rep_file rep) (rep_records rep)) \<and>
         rep_content rep = w_file (writeCSV (createError e) (writeError e) (fileAccepts e)
            (rep_file rep) (rep_records rep)) \<and>
         (validTime (wallClock e (saveInstant e)) \<longrightarrow>
            (\<exists>Y M D h m s.
               rep_file rep = ''ec2_instances_'' @ Y @ M @ D @ ''_'' @ h @ m @ s @ ''.csv'' \<and>
               length Y = 4 \<and> length M = 2 \<and> length D = 2 \<and>
               length h = 2 \<and> length m = 2 \<and> length s = 2 \<and>
               set (Y @ M @ D @ h @ m @ s) \<subseteq> set digitChars))"
proof -
  from main_Ran [OF assms] have f: "rep_file rep = outputFile e"
    and w: "rep_written rep = w_error (writeCSV (createError e) (writeError e) (fileAccepts e)
        (outputFile e) (rep_records rep))"
    and c: "rep_content rep = w_file (writeCSV (createError e) (writeError e) (fileAccepts e)
        (outputFile e) (rep_records rep))"
    by blast+
  from f have n: "rep_file rep = ''ec2_instances_'' @ formatStamp (wallClock e (saveInstant e)) @ ''.csv''"
    by (simp only: outputFile_def)
  from w f have w': "rep_written rep = w_error (writeCSV (createError e) (writeError e)
      (fileAccepts e) (rep_file rep) (rep_records rep))"
    by (simp only:)
  from c f have c': "rep_content rep = w_file (writeCSV (createError e) (writeError e)
      (fileAccepts e) (rep_file rep) (rep_records rep))"
    by (simp only:)
  have shape: "\<exists>Y M D h m s.
      rep_file rep = ''ec2_instances_'' @ Y @ M @ D @ ''_'' @ h @ m @ s @ ''.csv'' \<and>
      length Y = 4 \<and> length M = 2 \<and> length D = 2 \<and>
      length h = 2 \<and> length m = 2 \<and> length s = 2 \<and>
      set (Y @ M @ D @ h @ m @ s) \<subseteq> set digitChars"
    if "validTime (wallClock e (saveInstant e))"
  proof -
    from formatStamp_shape [OF that] obtain Y M D h m s where
      "formatStamp (wallClock e (saveInstant e)) = Y @ M @ D @ ''_'' @ h @ m @ s"
      "length Y = 4" "length M = 2" "length D = 2" "length h = 2" "length m = 2" "length s = 2"
      "set (Y @ M @ D @ h @ m @ s) \<subseteq> set digitChars"
      by blast
    with n have "rep_file rep = ''ec2_instances_'' @ Y @ M @ D @ ''_'' @ h @ m @ s @ ''.csv'' \<and>
      length Y = 4 \<and> length M = 2 \<and> length D = 2 \<and>
      length h = 2 \<and> length m = 2 \<and> length s = 2 \<and>
      set (Y @ M @ D @ h @ m @ s) \<subseteq> set digitChars"
      by (simp only: append_assoc simp_thms)
    then show ?thesis by blast
  qed
  show ?thesis
    by (intro conjI impI) (rule n, rule w', rule c', rule shape)
qed

theorem file_name_stamp_is_save_time_witness:
  "validTime (wallClock exEnv (saveInstant exEnv)) \<and>
   (\<exists>rep. main exEnv = Ran rep \<and>
      rep_file rep = ''ec2_instances_'' @ formatStamp (wallClock exEnv (saveInstant exEnv)) @ ''.csv'' \<and>
      rep_file rep = ''ec2_instances_20240115_143027.csv'')"
proof -
  from main_run [OF exEnv_args exEnv_load exEnv_gather] obtain rep where
    rep: "main exEnv = Ran rep" and f: "rep_file rep = outputFile exEnv"
    by blast
  have v: "validTime (wallClock exEnv (saveInstant exEnv))"
    by (simp add: exEnv_def validTime_def)
  from file_name_stamp_is_save_time [OF rep]
  have "rep_file rep = ''ec2_instances_'' @ formatStamp (wallClock exEnv (saveInstant exEnv)) @ ''.csv''"
    by (rule conjunct1)
  moreover from f have "rep_file rep = ''ec2_instances_20240115_143027.csv''"
    by (simp only: exEnv_file)
  ultimately show ?thesis using rep v by blast
qed

section \<open>The claim on repeated runs\<close>

lemma mset_concat_cong: "mset xss = mset yss \<Longrightarrow> mset (concat xss) = mset (concat yss)"
proof -
  assume "mset xss = mset yss"
  then have "image_mset mset (mset xss) = image_mset mset (mset yss)" by simp
  then have "sum_mset (mset (map mset xss)) = sum_mset (mset (map mset yss))" by simp
  then show ?thesis by (simp only: mset_concat sum_mset_sum_list)
qed

lemma records_by_call:
  assumes "main e = Ran rep"
  shows "rep_records rep = concat (map (\<lambda>(a, r). sentRecords (aws e) a r) (rep_calls rep))"
proof -
  from main_Ran [OF assms] have
    f: "rep_fetches rep = map (\<lambda>(a, r). getEC2Instances (aws e) a r) (rep_calls rep)"
    and g: "gather (rep_fetches rep) [] = Inr (rep_records rep)"
    by blast+
  from gather_Inr [OF g] obtain slices where
    s: "map fetch_sent (rep_fetches rep) = map Inr slices" and c: "rep_records rep = concat slices"
    by auto
  from s have "map (case_sum (\<lambda>p. []) (\<lambda>x. x)) (map fetch_sent (rep_fetches rep))
      = map (case_sum (\<lambda>p. []) (\<lambda>x. x)) (map Inr slices)"
    by simp
  then have "slices = map (\<lambda>out. case fetch_sent out of Inl p \<Rightarrow> [] | Inr x \<Rightarrow> x) (rep_fetches rep)"
    by (simp add: comp_def)
  also have "\<dots> = map (\<lambda>(a, r). sentRecords (aws e) a r) (rep_calls rep)"
    by (simp add: f comp_def sentRecords_def case_prod_beta)
  finally show ?thesis using c by simp
qed

lemma written_complete:
  assumes "main e = Ran rep" and "rep_written rep = None" and "fileAccepts e = None"
  shows "rep_content rep = Some (csvStream (rep_records rep))"
proof -
  from main_Ran [OF assms(1)] have
    w: "rep_written rep = w_error (writeCSV (createError e) (writeError e) (fileAccepts e)
         (outputFile e) (rep_records rep))"
    and c: "rep_content rep = w_file (writeCSV (createError e) (writeError e) (fileAccepts e)
         (outputFile e) (rep_records rep))"
    by blast+
  from w assms(2) have "w_error (writeCSV (createError e) (writeError e) (fileAccepts e)
      (outputFile e) (rep_records rep)) = None"
    by simp
  from writeCSV_nil [OF this] c assms(3) show ?thesis by (simp add: stored_all)
qed

lemma exEnvLate_args: "2 \<le> length (args exEnvLate)"
  by (simp add: exEnvLate_def exEnv_def)

lemma exEnvLate_load:
  "loadAccountsFromFile (readFile exEnvLate) (unmarshal exEnvLate) (args exEnvLate ! 1)
     = Inr exAccounts"
  using exEnv_load by (simp add: exEnvLate_def)

lemma exEnvLate_gather:
  "gather (map (\<lambda>(a, r). getEC2Instances (aws exEnvLate) a r) (fetchCalls exEnvLate exAccounts)) []
     = Inr (exRecords3 @ exRecords1)"
  by code_simp

lemma exEnvLate_calls:
  "fetchCalls exEnvLate exAccounts
     = [(''222'', ''arn:B''), (''333'', ''arn:C''), (''111'', ''arn:A''), (''444'', ''arn:D'')]"
  by code_simp

lemma exEnv_healthy:
  "createError exEnv name = None" "\<forall>n. writeError exEnv n = None" "fileAccepts exEnv = None"
  by (simp_all add: exEnv_def)

lemma exRecords_order: "exRecords1 @ exRecords3 \<noteq> exRecords3 @ exRecords1"
  by (simp add: exRecords1_def exRecords3_def)

text \<open>
  C5 (as stated). The claim has two runs on the same inventory write the same bytes. The
  two sample runs differ in nothing but the order in which the goroutines finish; both
  succeed and store their files completely, the first lists the records of account 111
  before the record of account 333, the second after it, and the two files differ.
\<close>

theorem row_order_follows_completion_order:
  "exEnvLate = exEnv\<lparr>completion := [2]\<rparr> \<and>
   map_option rep_records (theReport (main exEnv)) = Some (exRecords1 @ exRecords3) \<and>
   map_option rep_records (theReport (main exEnvLate)) = Some (exRecords3 @ exRecords1) \<and>
   succeeded (main exEnv) \<and> succeeded (main exEnvLate) \<and>
   map_option rep_content (theReport (main exEnv))
     = Some (Some (csvStream (exRecords1 @ exRecords3))) \<and>
   map_option rep_content (theReport (main exEnvLate))
     = Some (Some (csvStream (exRecords3 @ exRecords1))) \<and>
   map_option rep_content (theReport (main exEnv))
     \<noteq> map_option rep_content (theReport (main exEnvLate))"
proof -
  from main_run [OF exEnv_args exEnv_load exEnv_gather] obtain rep where
    rep: "main exEnv = Ran rep" "rep_records rep = exRecords1 @ exRecords3"
    and w: "rep_written rep = w_error (writeCSV (createError exEnv) (writeError exEnv)
        (fileAccepts exEnv) (outputFile exEnv) (exRecords1 @ exRecords3))"
    by blast
  from main_run [OF exEnvLate_args exEnvLate_load exEnvLate_gather] obtain rep' where
    rep': "main exEnvLate = Ran rep'" "rep_records rep' = exRecords3 @ exRecords1"
    and w': "rep_written rep' = w_error (writeCSV (createError exEnvLate) (writeError exEnvLate)
        (fileAccepts exEnvLate) (outputFile exEnvLate) (exRecords3 @ exRecords1))"
    by blast
  from w have n: "rep_written rep = None"
    by (simp add: writeCSV_ok exEnv_healthy)
  from w' have n': "rep_written rep' = None"
    by (simp add: writeCSV_ok exEnv_healthy exEnvLate_def)
  have a': "fileAccepts exEnvLate = None" by (simp add: exEnvLate_def exEnv_def)
  from written_complete [OF rep(1) n exEnv_healthy(3)] rep(2)
  have c: "rep_content rep = Some (csvStream (exRecords1 @ exRecords3))" by simp
  from written_complete [OF rep'(1) n' a'] rep'(2)
  have c': "rep_content rep' = Some (csvStream (exRecords3 @ exRecords1))" by simp
  have "csvStream (exRecords1 @ exRecords3) \<noteq> csvStream (exRecords3 @ exRecords1)"
  proof
    assume "csvStream (exRecords1 @ exRecords3) = csvStream (exRecords3 @ exRecords1)"
    then have "readCSV (csvStream (exRecords1 @ exRecords3))
        = readCSV (csvStream (exRecords3 @ exRecords1))"
      by simp
    then have "exRecords1 @ exRecords3 = exRecords3 @ exRecords1"
      by (simp only: readCSV_stream option.inject)
    with exRecords_order show False by simp
  qed
  with c c' have d: "rep_content rep \<noteq> rep_content rep'" by simp
  from n have s: "succeeded (main exEnv)" by (simp add: succeeded_def rep(1))
  from n' have s': "succeeded (main exEnvLate)" by (simp add: succeeded_def rep'(1))
  from rep rep' c c' d s s' show ?thesis
    by (simp add: theReport_def exEnvLate_def)
qed

text \<open>
  C5 (amended). Two runs on the same config and the same responses, whatever their
  completion orders, clocks and file systems, merge the same records up to order: in
  each run the merged list is the concatenation of the accounts' slices in the order in
  which the fetches complete, and the two completion orders are arrangements of the same
  calls. When both runs return without error from \<open>writeCSV\<close> and both files are stored
  completely, each file consists of the header row followed by the rows of its merged
  list, in that order, so the two files hold the same data rows, each as often in one as
  in the other. When the completion order is the same as well, the merged lists and the
  bytes of the two files are equal.
\<close>

theorem rows_equal_up_to_order:
  assumes "main e = Ran rep"
    and "main (e\<lparr>completion := c', wallClock := w', saveInstant := t',
            createError := ce', writeError := we', fileAccepts := fa'\<rparr>) = Ran rep'"
  shows "rep_records rep = concat (map (\<lambda>(a, r). sentRecords (aws e) a r) (rep_calls rep)) \<and>
         rep_records rep' = concat (map (\<lambda>(a, r). sentRecords (aws e) a r) (rep_calls rep')) \<and>
         mset (rep_calls rep') = mset (rep_calls rep) \<and>
         mset (rep_records rep') = mset (rep_records rep) \<and>
         (rep_calls rep' = rep_calls rep \<longrightarrow> rep_records rep' = rep_records rep) \<and>
         (rep_written rep = None \<and> fileAccepts e = None \<and>
          rep_written rep' = None \<and> fa' = None \<longrightarrow>
            (\<exists>content content'.
               rep_content rep = Some content \<and> rep_content rep' = Some content' \<and>
               csvRows content = Some (csvHeader # map recordFields (rep_records rep)) \<and>
               csvRows content' = Some (csvHeader # map recordFields (rep_records rep')) \<and>
               mset (map recordFields (rep_records rep'))
                 = mset (map recordFields (rep_records rep)) \<and>
               (rep_calls rep' = rep_calls rep \<longrightarrow> content' = content)))"
proof -
  let ?e' = "e\<lparr>completion := c', wallClock := w', saveInstant := t',
      createError := ce', writeError := we', fileAccepts := fa'\<rparr>"
  let ?f = "\<lambda>(a, r). sentRecords (aws e) a r"
  from main_Ran [OF assms(1)] obtain accounts where
    l: "loadAccountsFromFile (readFile e) (unmarshal e) (args e ! 1) = Inr accounts"
    and k: "rep_calls rep = fetchCalls e accounts"
    by auto
  from main_Ran [OF assms(2)] obtain accounts' where
    l': "loadAccountsFromFile (readFile e) (unmarshal e) (args e ! 1) = Inr accounts'"
    and k': "rep_calls rep' = fetchCalls ?e' accounts'"
    by auto
  from l l' have same: "accounts' = accounts" by simp
  have r: "rep_records rep = concat (map ?f (rep_calls rep))"
    using assms(1) by (rule records_by_call)
  have "rep_records rep' = concat (map (\<lambda>(a, r). sentRecords (aws ?e') a r) (rep_calls rep'))"
    using assms(2) by (rule records_by_call)
  then have r': "rep_records rep' = concat (map ?f (rep_calls rep'))" by simp
  from k k' same have mc: "mset (rep_calls rep') = mset (rep_calls rep)"
    by (simp add: fetchCalls_def mset_arrange)
  then have "mset (map ?f (rep_calls rep')) = mset (map ?f (rep_calls rep))"
    by (metis mset_map)
  then have "mset (concat (map ?f (rep_calls rep'))) = mset (concat (map ?f (rep_calls rep)))"
    by (rule mset_concat_cong)
  with r r' have mr: "mset (rep_records rep') = mset (rep_records rep)" by simp
  have eq: "rep_records rep' = rep_records rep" if "rep_calls rep' = rep_calls rep"
    using that r r' by simp
  have files: "\<exists>content content'.
      rep_content rep = Some content \<and> rep_content rep' = Some content' \<and>
      csvRows content = Some (csvHeader # map recordFields (rep_records rep)) \<and>
      csvRows content' = Some (csvHeader # map recordFields (rep_records rep')) \<and>
      mset (map recordFields (rep_records rep')) = mset (map recordFields (rep_records rep)) \<and>
      (rep_calls rep' = rep_calls rep \<longrightarrow> content' = content)"
    if "rep_written rep = None \<and> fileAccepts e = None \<and> rep_written rep' = None \<and> fa' = None"
  proof -
    from that have n: "rep_written rep = None" and a: "fileAccepts e = None"
      and n': "rep_written rep' = None" and a': "fileAccepts ?e' = None"
      by simp_all
    have c: "rep_content rep = Some (csvStream (rep_records rep))"
      using assms(1) n a by (rule written_complete)
    have c': "rep_content rep' = Some (csvStream (rep_records rep'))"
      using assms(2) n' a' by (rule written_complete)
    from mr have "mset (map recordFields (rep_records rep'))
        = mset (map recordFields (rep_records rep))"
      by (metis mset_map)
    moreover have "rep_calls rep' = rep_calls rep \<longrightarrow>
        csvStream (rep_records rep') = csvStream (rep_records rep)"
      using eq by simp
    ultimately show ?thesis
      using c c' csvRows_stream [of "rep_records rep"] csvRows_stream [of "rep_records rep'"]
      by blast
  qed
  show ?thesis
    by (intro conjI impI) (rule r, rule r', rule mc, rule mr, erule eq, erule files)
qed

theorem rows_equal_up_to_order_witness:
  "\<exists>rep rep'. main exEnv = Ran rep \<and> main exEnvLate = Ran rep' \<and>
     rep_calls rep = exAccounts \<and>
     rep_calls rep'
       = [(''222'', ''arn:B''), (''333'', ''arn:C''), (''111'', ''arn:A''), (''444'', ''arn:D'')] \<and>
     rep_records rep = exRecords1 @ exRecords3 \<and>
     rep_records rep' = exRecords3 @ exRecords1 \<and>
     mset (rep_records rep') = mset (rep_records rep) \<and>
     rep_written rep = None \<and> rep_written rep' = None \<and>
     (\<exists>content content'.
        rep_content rep = Some content \<and> rep_content rep' = Some content' \<and>
        csvRows content = Some (csvHeader # map recordFields (exRecords1 @ exRecords3)) \<and>
        csvRows content' = Some (csvHeader # map recordFields (exRecords3 @ exRecords1)))"
proof -
  from main_run [OF exEnv_args exEnv_load exEnv_gather] obtain rep where
    rep: "main exEnv = Ran rep" "rep_records rep = exRecords1 @ exRecords3"
      "rep_calls rep = fetchCalls exEnv exAccounts"
    and w: "rep_written rep = w_error (writeCSV (createError exEnv) (writeError exEnv)
        (fileAccepts exEnv) (outputFile exEnv) (exRecords1 @ exRecords3))"
    by blast
  from main_run [OF exEnvLate_args exEnvLate_load exEnvLate_gather] obtain rep' where
    rep': "main exEnvLate = Ran rep'" "rep_records rep' = exRecords3 @ exRecords1"
      "rep_calls rep' = fetchCalls exEnvLate exAccounts"
    and w': "rep_written rep' = w_error (writeCSV (createError exEnvLate) (writeError exEnvLate)
        (fileAccepts exEnvLate) (outputFile exEnvLate) (exRecords3 @ exRecords1))"
    by blast
  from w have n: "rep_written rep = None"
    by (simp add: writeCSV_ok exEnv_healthy)
  from w' have n': "rep_written rep' = None"
    by (simp add: writeCSV_ok exEnv_healthy exEnvLate_def)
  have eq: "exEnv\<lparr>completion := [2], wallClock := wallClock exEnv,
      saveInstant := saveInstant exEnv, createError := createError exEnv,
      writeError := writeError exEnv, fileAccepts := None\<rparr> = exEnvLate"
    by (simp add: exEnvLate_def exEnv_def)
  from rep'(1) have run': "main (exEnv\<lparr>completion := [2], wallClock := wallClock exEnv,
      saveInstant := saveInstant exEnv, createError := createError exEnv,
      writeError := writeError exEnv, fileAccepts := None\<rparr>) = Ran rep'"
    by (simp only: eq)
  note claim = rows_equal_up_to_order [OF rep(1) run']
  from claim have m: "mset (rep_records rep') = mset (rep_records rep)"
    by blast
  from claim [THEN conjunct2, THEN conjunct2, THEN conjunct2, THEN conjunct2, THEN conjunct2,
      THEN mp] n n' exEnv_healthy(3)
  have "\<exists>content content'.
      rep_content rep = Some content \<and> rep_content rep' = Some content' \<and>
      csvRows content = Some (csvHeader # map recordFields (rep_records rep)) \<and>
      csvRows content' = Some (csvHeader # map recordFields (rep_records rep'))"
    by blast
  with rep(2) rep'(2) have f: "\<exists>content content'.
      rep_content rep = Some content \<and> rep_content rep' = Some content' \<and>
      csvRows content = Some (csvHeader # map recordFields (exRecords1 @ exRecords3)) \<and>
      csvRows content' = Some (csvHeader # map recordFields (exRecords3 @ exRecords1))"
    by simp
  from rep(3) have k: "rep_calls rep = exAccounts" by (simp add: exEnv_calls)
  from rep'(3) have k': "rep_calls rep'
      = [(''222'', ''arn:B''), (''333'', ''arn:C''), (''111'', ''arn:A''), (''444'', ''arn:D'')]"
    by (simp add: exEnvLate_calls)
  from rep(1,2) rep'(1,2) k k' m n n' f show ?thesis by blast
qed

section \<open>The claim on failing accounts\<close>








section \<open>The claims on the report\<close>

text \<open>The bytes of a file that is stored completely, and the sample run on the full disk.\<close>

lemma csvWrite_header:
  "csvWrite csvHeader = ''Account ID,Instance ID,Tag Name,Instance Type'' @ [LF]"
  by code_simp

lemma csvStream_bytes:
  "csvStream instances = ''Account ID,Instance ID,Tag Name,Instance Type'' @ [LF]
     @ concat (map (\<lambda>i. csvWrite (recordFields i)) instances)"
  by (simp only: csvStream_def list.map concat.simps csvWrite_header map_map comp_def append_assoc)

lemma writeCSV_truncated:
  "writeCSV (\<lambda>f. None) (\<lambda>n. None) (Some k) filename instances
     = \<lparr>w_error = None, w_file = Some (take k (csvStream instances))\<rparr>"
  by (simp add: writeCSV_ok stored_def)

lemma exEnvFull_args: "2 \<le> length (args exEnvFull)"
  by (simp add: exEnvFull_def exEnv_def)

lemma exEnvFull_load:
  "loadAccountsFromFile (readFile exEnvFull) (unmarshal exEnvFull) (args exEnvFull ! 1)
     = Inr exAccounts"
  using exEnv_load by (simp add: exEnvFull_def)

lemma exEnvFull_gather:
  "gather (map (\<lambda>(a, r). getEC2Instances (aws exEnvFull) a r)
      (fetchCalls exEnvFull exAccounts)) [] = Inr (exRecords1 @ exRecords3)"
  using exEnv_gather by (simp add: exEnvFull_def fetchCalls_def)

lemma exEnvFull_file: "outputFile exEnvFull = ''ec2_instances_20240115_143027.csv''"
proof -
  have "outputFile exEnvFull = outputFile exEnv"
    by (simp add: exEnvFull_def outputFile_def)
  then show ?thesis by (simp only: exEnv_file)
qed

lemma exEnvFull_written:
  "writeCSV (createError exEnvFull) (writeError exEnvFull) (fileAccepts exEnvFull)
      name (exRecords1 @ exRecords3) = \<lparr>w_error = None, w_file = Some []\<rparr>"
  by (simp add: exEnvFull_def exEnv_def writeCSV_truncated)

lemma main_run_eq:
  assumes "2 \<le> length (args e)"
    and "loadAccountsFromFile (readFile e) (unmarshal e) (args e ! 1) = Inr accounts"
    and "gather (map (\<lambda>(a, r). getEC2Instances (aws e) a r) (fetchCalls e accounts)) []
           = Inr allInstances"
  shows "main e = Ran
     \<lparr>rep_calls = fetchCalls e accounts,
      rep_fetches = map (\<lambda>(a, r). getEC2Instances (aws e) a r) (fetchCalls e accounts),
      rep_records = allInstances,
      rep_console = consoleTable allInstances
        @ (case w_error (writeCSV (createError e) (writeError e) (fileAccepts e)
                  (outputFile e) allInstances) of
             Some err \<Rightarrow> []
           | None \<Rightarrow> [Saved (outputFile e)]),
      rep_file = outputFile e,
      rep_written = w_error (writeCSV (createError e) (writeError e) (fileAccepts e)
                  (outputFile e) allInstances),
      rep_content = w_file (writeCSV (createError e) (writeError e) (fileAccepts e)
                  (outputFile e) allInstances)\<rparr>"
  using assms by (simp add: main_def Let_def)

lemma exEnvFull_main:
  "main exEnvFull = Ran
     \<lparr>rep_calls = fetchCalls exEnvFull exAccounts,
      rep_fetches = map (\<lambda>(a, r). getEC2Instances (aws exEnvFull) a r)
         (fetchCalls exEnvFull exAccounts),
      rep_records = exRecords1 @ exRecords3,
      rep_console = consoleTable (exRecords1 @ exRecords3)
        @ [Saved ''ec2_instances_20240115_143027.csv''],
      rep_file = ''ec2_instances_20240115_143027.csv'',
      rep_written = None,
      rep_content = Some []\<rparr>"
  using main_run_eq [OF exEnvFull_args exEnvFull_load exEnvFull_gather]
  by (simp only: exEnvFull_written exEnvFull_file written.select_convs option.case)

text \<open>
  C3. On a file system that takes every byte, \<open>writeCSV\<close> returns nil and the file
  holds the header line \<open>Account ID,Instance ID,Tag Name,Instance Type\<close> followed by
  one encoded row per record, in the order of the list; read back, it has exactly one
  row more than there are records, the header first, and its data rows are the records.
  On a file system that stops taking bytes, \<open>writeCSV\<close> returns nil all the same, since
  the errors of the deferred \<open>Flush\<close> and \<open>Close\<close> are dropped, and the file holds
  only the bytes taken: none on a full disk. The sample run on the full disk merges
  three records, ends as a success and leaves an empty file, which has no row and does
  not read back as any record list.
\<close>

theorem csv_round_trip_unless_flush_fails:
  "writeCSV (\<lambda>f. None) (\<lambda>n. None) None filename instances
     = \<lparr>w_error = None, w_file = Some (csvStream instances)\<rparr> \<and>
   csvStream instances = ''Account ID,Instance ID,Tag Name,Instance Type'' @ [LF]
     @ concat (map (\<lambda>i. csvWrite (recordFields i)) instances) \<and>
   csvRows (csvStream instances) = Some (csvHeader # map recordFields instances) \<and>
   length (csvHeader # map recordFields instances) = 1 + length instances \<and>
   readCSV (csvStream instances) = Some instances \<and>
   writeCSV (\<lambda>f. None) (\<lambda>n. None) (Some k) filename instances
     = \<lparr>w_error = None, w_file = Some (take k (csvStream instances))\<rparr> \<and>
   map_option rep_records (theReport (main exEnvFull)) = Some (exRecords1 @ exRecords3) \<and>
   length (exRecords1 @ exRecords3) = 3 \<and>
   succeeded (main exEnvFull) \<and>
   map_option rep_content (theReport (main exEnvFull)) = Some (Some []) \<and>
   csvRows [] = Some [] \<and> readCSV [] = None"
proof -
  have full: "writeCSV (\<lambda>f. None) (\<lambda>n. None) None filename instances
      = \<lparr>w_error = None, w_file = Some (csvStream instances)\<rparr>"
    by (simp add: writeCSV_ok stored_all)
  have n: "length (csvHeader # map recordFields instances) = 1 + length instances"
    by simp
  have three: "length (exRecords1 @ exRecords3) = 3"
    by (simp add: exRecords1_def exRecords3_def)
  have r: "map_option rep_records (theReport (main exEnvFull)) = Some (exRecords1 @ exRecords3)"
    by (simp add: exEnvFull_main theReport_def)
  have s: "succeeded (main exEnvFull)"
    by (simp add: exEnvFull_main succeeded_def)
  have c: "map_option rep_content (theReport (main exEnvFull)) = Some (Some [])"
    by (simp add: exEnvFull_main theReport_def)
  show ?thesis
    by (intro conjI) (rule full, rule csvStream_bytes, rule csvRows_stream, rule n,
        rule readCSV_stream, rule writeCSV_truncated, rule r, rule three, rule s, rule c,
        rule csvRows_empty, rule readCSV_empty)
qed

text \<open>
  C8. The console table has a separator line on top, after the column titles and at the
  bottom; each is 95 characters long and consists of equals signs. The summary line
  reports the number of records. On a file system that takes every byte the CSV file
  written from the same list has one row more than that: the header row. On the full
  disk the sample run prints the table with the count 3 and the line that the file has
  been saved, while the file it leaves is empty and has no row.
\<close>

theorem summary_count_unless_flush_fails:
  "(\<exists>body. consoleTable instances =
       [Text [], Text separator,
        TableRow ''Account ID'' ''Instance ID'' ''Tag Name'' ''Instance Type'',
        Text separator] @ body @ [Text separator, Summary (length instances)]) \<and>
   length separator = 95 \<and> set separator = {CHR ''=''} \<and>
   writeCSV (\<lambda>f. None) (\<lambda>n. None) None filename instances
     = \<lparr>w_error = None, w_file = Some (csvStream instances)\<rparr> \<and>
   (\<exists>rows. csvRows (csvStream instances) = Some rows \<and> length rows = 1 + length instances) \<and>
   succeeded (main exEnvFull) \<and>
   map_option rep_console (theReport (main exEnvFull))
     = Some (consoleTable (exRecords1 @ exRecords3)
         @ [Saved ''ec2_instances_20240115_143027.csv'']) \<and>
   last (consoleTable (exRecords1 @ exRecords3)) = Summary 3 \<and>
   map_option rep_content (theReport (main exEnvFull)) = Some (Some []) \<and>
   csvRows [] = Some []"
proof -
  have table: "\<exists>body. consoleTable instances =
       [Text [], Text separator,
        TableRow ''Account ID'' ''Instance ID'' ''Tag Name'' ''Instance Type'',
        Text separator] @ body @ [Text separator, Summary (length instances)]"
    by (simp add: consoleTable_def)
  have sep: "length separator = 95" "set separator = {CHR ''=''}"
    by (simp_all add: separator_def)
  have full: "writeCSV (\<lambda>f. None) (\<lambda>n. None) None filename instances
      = \<lparr>w_error = None, w_file = Some (csvStream instances)\<rparr>"
    by (simp add: writeCSV_ok stored_all)
  have rows: "\<exists>rows. csvRows (csvStream instances) = Some rows \<and> length rows = 1 + length instances"
    by (simp add: csvRows_stream)
  have count: "last (consoleTable (exRecords1 @ exRecords3)) = Summary 3"
    by (simp add: consoleTable_def exRecords1_def exRecords3_def)
  have s: "succeeded (main exEnvFull)"
    by (simp add: exEnvFull_main succeeded_def)
  have c: "map_option rep_content (theReport (main exEnvFull)) = Some (Some [])"
    by (simp add: exEnvFull_main theReport_def)
  have t: "map_option rep_console (theReport (main exEnvFull))
       = Some (consoleTable (exRecords1 @ exRecords3)
           @ [Saved ''ec2_instances_20240115_143027.csv''])"
    by (simp add: exEnvFull_main theReport_def)
  show ?thesis
    by (intro conjI) (rule table, rule sep(1), rule sep(2), rule full, rule rows, rule s,
        rule t, rule count, rule c, rule csvRows_empty)
qed

end
